theory Spec2Isabelle
  imports Complex_Main "HOL-Library.Log_Nat"
begin

section \<open>Price generator: configuration and adaptive state\<close>

text \<open>
  The oracle price pusher (\<^verbatim>\<open>src/oracul/price_generator_cly_debug.py\<close>) keeps three
  adaptive counters on the \<^verbatim>\<open>PriceGenerator\<close> object and reads its tuning constants from
  a \<^verbatim>\<open>PriceConfig\<close> dataclass. Python's unbounded \<^verbatim>\<open>int\<close> is \<^typ>\<open>int\<close>. A Python
  \<^verbatim>\<open>float\<close> is a binary64 number, carried here as the rational it denotes. Where a
  result depends on the exact value of a float computation (the gas limit, the profit
  and loss ratio and its comparison with the threshold) every operation is rounded to
  the nearest binary64 number, as the machine does. The adaptive gas multiplier, the gas
  price estimate and the generated price are kept exact, rounding is not represented
  there: what is shown about them is an invariant and bounds.
\<close>

record price_config =
  volatility_multiplier :: rat
  enable_volatile_events :: bool
  volatile_event_probability :: rat
  max_price_change :: rat
  min_price :: rat
  base_gas_limit :: int
  max_gas_limit :: int
  base_gas_price_gwei :: int
  max_gas_price_gwei :: int
  max_batch_size :: int
  retry_attempts :: int
  retry_delay_base :: rat

text \<open>The defaults of the \<^verbatim>\<open>PriceConfig\<close> dataclass.\<close>

definition default_price_config :: price_config where
  "default_price_config =
     \<lparr> volatility_multiplier = 1,
       enable_volatile_events = True,
       volatile_event_probability = 1 / 1000,
       max_price_change = 1 / 2,
       min_price = 1 / 100,
       base_gas_limit = 800000,
       max_gas_limit = 1500000,
       base_gas_price_gwei = 20,
       max_gas_price_gwei = 100,
       max_batch_size = 6,
       retry_attempts = 5,
       retry_delay_base = 1 \<rparr>"

record adaptive_state =
  failed_attempts :: int
  current_batch_size :: int
  adaptive_gas_multiplier :: rat

text \<open>The values assigned in \<^verbatim>\<open>PriceGenerator.__init__\<close>.\<close>

definition initial_state :: adaptive_state where
  "initial_state =
     \<lparr> failed_attempts = 0, current_batch_size = 6, adaptive_gas_multiplier = 1 \<rparr>"

text \<open>\<^verbatim>\<open>PriceGenerator.adjust_batch_size_on_failure\<close>: two consecutive \<^verbatim>\<open>if\<close> blocks.\<close>

definition adjust_batch_size_on_failure :: "adaptive_state \<Rightarrow> adaptive_state" where
  "adjust_batch_size_on_failure s =
     (let s1 = s\<lparr>failed_attempts := failed_attempts s + 1\<rparr>;
          s2 = (if 2 \<le> failed_attempts s1
                then s1\<lparr>current_batch_size := max 2 (current_batch_size s1 - 1),
                        adaptive_gas_multiplier := min 2 (adaptive_gas_multiplier s1 * (12 / 10))\<rparr>
                else s1)
      in if 4 \<le> failed_attempts s2
         then s2\<lparr>current_batch_size := 1, adaptive_gas_multiplier := 2\<rparr>
         else s2)"

text \<open>\<^verbatim>\<open>PriceGenerator.reset_adaptive_params_on_success\<close>.\<close>

definition reset_adaptive_params_on_success ::
  "price_config \<Rightarrow> adaptive_state \<Rightarrow> adaptive_state" where
  "reset_adaptive_params_on_success cfg s =
     (let s1 = (if 0 < failed_attempts s
                then s\<lparr>failed_attempts := max 0 (failed_attempts s - 1)\<rparr>
                else s)
      in if failed_attempts s1 = 0
         then (let s2 = (if current_batch_size s1 < max_batch_size cfg
                         then s1\<lparr>current_batch_size :=
                                   min (max_batch_size cfg) (current_batch_size s1 + 1)\<rparr>
                         else s1)
               in s2\<lparr>adaptive_gas_multiplier := max 1 (adaptive_gas_multiplier s2 * (95 / 100))\<rparr>)
         else s1)"

text \<open>
  The multiplier adjustment made inside the \<^verbatim>\<open>except\<close> block of
  \<^verbatim>\<open>update_prices_with_retry\<close> when the error text contains "out of gas".
\<close>

definition out_of_gas_adjust :: "adaptive_state \<Rightarrow> adaptive_state" where
  "out_of_gas_adjust s =
     s\<lparr>adaptive_gas_multiplier := min 2 (adaptive_gas_multiplier s * (13 / 10))\<rparr>"

text \<open>The three ways the adaptive counters are ever written after construction.\<close>

datatype transition = On_failure | On_success | Out_of_gas

fun step :: "price_config \<Rightarrow> adaptive_state \<Rightarrow> transition \<Rightarrow> adaptive_state" where
  "step cfg s On_failure = adjust_batch_size_on_failure s"
| "step cfg s On_success = reset_adaptive_params_on_success cfg s"
| "step cfg s Out_of_gas = out_of_gas_adjust s"

definition run :: "price_config \<Rightarrow> transition list \<Rightarrow> adaptive_state" where
  "run cfg ts = foldl (step cfg) initial_state ts"

section \<open>Binary64 arithmetic\<close>

text \<open>
  Rounding to the nearest number with a 53 bit significand, ties to the even significand.
  For \<open>y > 0\<close>, \<open>binade y\<close> is the exponent \<open>e\<close> with \<open>2 ^ e \<le> y < 2 ^ (e + 1)\<close>, so
  the representable numbers around \<open>y\<close> are the multiples of \<open>2 ^ (e - 52)\<close>. The exponent
  is not bounded: overflow and subnormal numbers (beyond about 1.8e308 and below about
  2.2e-308) are not represented.
\<close>

definition binade :: "rat \<Rightarrow> int" where
  "binade y =
     (if 1 \<le> y then bitlen \<lfloor>y\<rfloor> - 1
      else (let k = bitlen \<lfloor>1 / y\<rfloor> - 1 in if y * 2 powi k = 1 then - k else - k - 1))"

definition round_half_even :: "rat \<Rightarrow> int" where
  "round_half_even r =
     (let f = \<lfloor>r\<rfloor>; d = r - of_int f
      in if d < 1 / 2 then f else if 1 / 2 < d then f + 1 else if even f then f else f + 1)"

definition round_double :: "rat \<Rightarrow> rat" where
  "round_double x =
     (if x = 0 then 0
      else (let a = \<bar>x\<bar>; q = 2 powi (binade a - 52); m = round_half_even (a / q)
            in if x < 0 then - (of_int m * q) else of_int m * q))"

text \<open>
  The float operations of the source: a decimal literal is the nearest binary64 number,
  an \<^verbatim>\<open>int\<close> that meets a float is converted to the nearest one, and \<^verbatim>\<open>+\<close>, \<^verbatim>\<open>*\<close> and
  the true division \<^verbatim>\<open>/\<close> of two integers give the exact result rounded once.
\<close>

definition float_literal :: "rat \<Rightarrow> rat" where
  "float_literal x = round_double x"

definition float_of_int :: "int \<Rightarrow> rat" where
  "float_of_int n = round_double (of_int n)"

definition float_add :: "rat \<Rightarrow> rat \<Rightarrow> rat" where
  "float_add a b = round_double (a + b)"

definition float_mul :: "rat \<Rightarrow> rat \<Rightarrow> rat" where
  "float_mul a b = round_double (a * b)"

definition int_true_div :: "int \<Rightarrow> int \<Rightarrow> rat" where
  "int_true_div a b = round_double (of_int a / of_int b)"

section \<open>Gas estimation\<close>

text \<open>Python's \<^verbatim>\<open>int(x)\<close> on a float truncates toward zero.\<close>

definition py_int :: "rat \<Rightarrow> int" where
  "py_int x = (if 0 \<le> x then \<lfloor>x\<rfloor> else \<lceil>x\<rceil>)"

text \<open>
  \<^verbatim>\<open>Web3.from_wei(n, 'gwei')\<close> and \<^verbatim>\<open>Web3.to_wei(n, 'gwei')\<close> belong to an external
  library (web3, eth_utils). \<^verbatim>\<open>from_wei\<close> returns the \<^verbatim>\<open>int\<close> 0 for 0, raises
  \<^verbatim>\<open>ValueError\<close> outside the range of an unsigned 256 bit number, and otherwise returns
  a \<^verbatim>\<open>decimal.Decimal\<close>. Python multiplies an \<^verbatim>\<open>int\<close> by a \<^verbatim>\<open>float\<close>, but
  \<^verbatim>\<open>Decimal * float\<close> raises \<^verbatim>\<open>TypeError\<close>.
\<close>

datatype py_error = TypeError | ValueError

datatype py_number = Py_int int | Py_decimal rat

definition from_wei_gwei :: "int \<Rightarrow> py_error + py_number" where
  "from_wei_gwei n =
     (if n = 0 then Inr (Py_int 0)
      else if n < 0 \<or> 2 ^ 256 - 1 < n then Inl ValueError
      else Inr (Py_decimal (of_int n / 1000000000)))"

definition times_float :: "py_number \<Rightarrow> rat \<Rightarrow> py_error + rat" where
  "times_float x f = (case x of Py_int n \<Rightarrow> Inr (of_int n * f) | Py_decimal d \<Rightarrow> Inl TypeError)"

text \<open>
  \<^verbatim>\<open>to_wei\<close> multiplies by 10^9. It raises \<^verbatim>\<open>ValueError\<close> on an amount that is
  negative or beyond 256 bits; amounts are taken inside that range, where it is this
  function.
\<close>

definition to_wei_gwei :: "int \<Rightarrow> int" where
  "to_wei_gwei n = n * 1000000000"

text \<open>The local \<^verbatim>\<open>base_gas\<close> of \<^verbatim>\<open>get_smart_gas_limit\<close>.\<close>

definition base_gas :: "int \<Rightarrow> int" where
  "base_gas tokens_count =
     (if tokens_count = 1 then 800000
      else if tokens_count \<le> 3 then 2500000
      else 1500000 + tokens_count * 700000)"

text \<open>\<^verbatim>\<open>PriceGenerator.get_smart_gas_limit\<close>, the limit used by every submission attempt.\<close>

definition get_smart_gas_limit :: "adaptive_state \<Rightarrow> int \<Rightarrow> int \<Rightarrow> int" where
  "get_smart_gas_limit s tokens_count attempt =
     (let retry_multiplier =
            float_add 1 (float_mul (float_of_int attempt) (float_literal (2 / 10)));
          failure_multiplier =
            float_add 1 (float_mul (float_of_int (failed_attempts s)) (float_literal (1 / 10)));
          gas_limit =
            py_int (float_mul (float_mul (float_of_int (base_gas tokens_count)) retry_multiplier)
                      failure_multiplier)
      in min gas_limit 8000000)"

text \<open>\<^verbatim>\<open>PriceGenerator.get_adaptive_gas_limit\<close>; no code path of the file calls it.\<close>

definition get_adaptive_gas_limit :: "price_config \<Rightarrow> adaptive_state \<Rightarrow> int \<Rightarrow> int" where
  "get_adaptive_gas_limit cfg s num_tokens =
     (let base_gas_per_token = base_gas_limit cfg div 6;
          gas_limit = base_gas_per_token * num_tokens;
          gas_limit = py_int (of_int gas_limit * adaptive_gas_multiplier s)
      in min gas_limit (max_gas_limit cfg))"

text \<open>
  \<^verbatim>\<open>PriceGenerator.get_dynamic_gas_price\<close>. The argument \<open>latest_gas_price\<close> is what
  reading \<^verbatim>\<open>self.w3.eth.gas_price\<close> gives: \<open>None\<close> when the read raises, \<open>Some w\<close>
  for \<open>w\<close> wei. Every exception inside the \<^verbatim>\<open>try\<close> (the read, \<^verbatim>\<open>from_wei\<close>, the
  multiplication by 1.2) ends in the \<^verbatim>\<open>except\<close> branch, which returns the configured
  base price. The result is in wei.
\<close>

definition get_dynamic_gas_price :: "price_config \<Rightarrow> adaptive_state \<Rightarrow> int option \<Rightarrow> int" where
  "get_dynamic_gas_price cfg s latest_gas_price =
     (case latest_gas_price of
        None \<Rightarrow> to_wei_gwei (base_gas_price_gwei cfg)
      | Some w \<Rightarrow>
          (case from_wei_gwei w of
             Inl e \<Rightarrow> to_wei_gwei (base_gas_price_gwei cfg)
           | Inr network_gas_price_gwei \<Rightarrow>
               (case times_float network_gas_price_gwei (12 / 10) of
                  Inl e \<Rightarrow> to_wei_gwei (base_gas_price_gwei cfg)
                | Inr scaled \<Rightarrow>
                    (let adjusted_gas_price =
                           max (of_int (base_gas_price_gwei cfg))
                               (min scaled (of_int (max_gas_price_gwei cfg)));
                         final_gas_price = py_int (adjusted_gas_price * adaptive_gas_multiplier s)
                     in to_wei_gwei final_gas_price))))"

section \<open>Price generation\<close>

record token_config =
  symbol :: string
  address :: string
  decimals :: int
  initial_price :: rat
  volatility :: rat

text \<open>
  \<^verbatim>\<open>PriceGenerator.generate_price\<close>. The three random draws are arguments:
  \<open>r_event\<close> is the \<^verbatim>\<open>random.random()\<close> compared with the event probability,
  \<open>u\<close> the \<^verbatim>\<open>random.uniform(2, 5)\<close> of a volatile event and \<open>r_change\<close> the
  \<^verbatim>\<open>random.random()\<close> of the price move. \<open>price_change\<close> is the local
  \<^verbatim>\<open>change\<close> after clamping; \<open>current\<close> is \<^verbatim>\<open>self.current_prices[symbol]\<close>.
\<close>

definition price_change :: "price_config \<Rightarrow> token_config \<Rightarrow> rat \<Rightarrow> rat \<Rightarrow> rat \<Rightarrow> rat" where
  "price_change cfg token r_event u r_change =
     (let volatility0 = volatility token * volatility_multiplier cfg;
          volatility1 = (if enable_volatile_events cfg \<and> r_event < volatile_event_probability cfg
                         then volatility0 * u else volatility0);
          change = (r_change - 5 / 10) * 2 * volatility1
      in max (- max_price_change cfg) (min (max_price_change cfg) change))"

definition generate_price ::
  "price_config \<Rightarrow> token_config \<Rightarrow> rat \<Rightarrow> rat \<Rightarrow> rat \<Rightarrow> rat \<Rightarrow> rat" where
  "generate_price cfg token current r_event u r_change =
     (let change = price_change cfg token r_event u r_change;
          new_price = current * (1 + change)
      in max new_price (min_price cfg))"

section \<open>Submission with retry\<close>

text \<open>
  What the chain answers to one attempt of \<^verbatim>\<open>update_prices_with_retry\<close>:
  the dry-run \<^verbatim>\<open>tx_function.call\<close> raises (\<open>Sim_failed\<close>), a receipt comes back
  with some status, or another step of the attempt (nonce read, build, sign, send, wait)
  raises an exception whose text is given.
\<close>

datatype outcome = Sim_failed | Receipt int | Error string

text \<open>
  The answers to one invocation: whether the pre-flight reads succeed, and for each
  attempt number the gas price read and the outcome.
\<close>

record script =
  preflight_ok :: bool
  gas_reads :: "nat \<Rightarrow> int option"
  outcomes :: "nat \<Rightarrow> outcome"

text \<open>
  A record of what an execution did, in order: entering \<^verbatim>\<open>update_prices_with_retry\<close>
  with its token and price lists, starting an attempt (tokens, attempt number, gas limit,
  gas price), writing the adaptive counters, sleeping before a retry.
\<close>

datatype event =
    Invoked "string list" "int list"
  | Attempted "string list" nat int int
  | Adapt transition
  | Slept rat

text \<open>\<^verbatim>\<open>str.lower()\<close> on ASCII text and the substring test \<^verbatim>\<open>needle in text\<close>.\<close>

definition lower_char :: "char \<Rightarrow> char" where
  "lower_char c =
     (let n = of_char c :: nat in if 65 \<le> n \<and> n \<le> 90 then char_of (n + 32) else c)"

definition lower :: "string \<Rightarrow> string" where
  "lower s = map lower_char s"

fun contains :: "string \<Rightarrow> string \<Rightarrow> bool" where
  "contains needle [] = (needle = [])"
| "contains needle (c # cs) = (take (length needle) (c # cs) = needle \<or> contains needle cs)"

text \<open>
  With a single token the attempt reads \<^verbatim>\<open>prices[0]\<close> before anything is sent; on an
  empty price list that raises \<^verbatim>\<open>IndexError\<close> inside the outer \<^verbatim>\<open>try\<close>, whatever
  the chain would have answered (the nonce read just before it is taken to succeed then).
  No caller passes such lists.
\<close>

definition attempt_outcome :: "string list \<Rightarrow> int list \<Rightarrow> outcome \<Rightarrow> outcome" where
  "attempt_outcome tokens prices answer =
     (if length tokens = 1 \<and> prices = [] then Error ''list index out of range'' else answer)"

definition add_events ::
  "event list \<Rightarrow> bool \<times> adaptive_state \<times> event list \<Rightarrow> bool \<times> adaptive_state \<times> event list" where
  "add_events evs r = (case r of (ok, s, es) \<Rightarrow> (ok, s, evs @ es))"

text \<open>The \<^verbatim>\<open>asyncio.sleep\<close> at the end of the \<^verbatim>\<open>except\<close> block.\<close>

definition backoff :: "price_config \<Rightarrow> nat \<Rightarrow> event list" where
  "backoff cfg attempt =
     (if int attempt < retry_attempts cfg - 1
      then [Slept (retry_delay_base cfg * 2 ^ attempt)] else [])"

text \<open>
  The \<^verbatim>\<open>for attempt in range(retry_attempts)\<close> loop of
  \<^verbatim>\<open>update_prices_with_retry\<close>: \<open>k\<close> iterations remain and \<open>attempt\<close> is the
  loop variable. The result is the returned flag, the adaptive state and the events.
\<close>

fun retry_loop ::
  "price_config \<Rightarrow> script \<Rightarrow> string list \<Rightarrow> int list \<Rightarrow> nat \<Rightarrow> nat \<Rightarrow> adaptive_state
     \<Rightarrow> bool \<times> adaptive_state \<times> event list" where
  "retry_loop cfg sc tokens prices 0 attempt s = (False, s, [])"
| "retry_loop cfg sc tokens prices (Suc k) attempt s =
     (let gas_price = get_dynamic_gas_price cfg s (gas_reads sc attempt);
          gas_limit = get_smart_gas_limit s (int (length tokens)) (int attempt);
          ev = Attempted tokens attempt gas_limit gas_price
      in case attempt_outcome tokens prices (outcomes sc attempt) of
           Sim_failed \<Rightarrow> (False, s, [ev])
         | Receipt status \<Rightarrow>
             if status = 1
             then (True, reset_adaptive_params_on_success cfg s, [ev, Adapt On_success])
             else add_events [ev] (retry_loop cfg sc tokens prices k (Suc attempt) s)
         | Error error_msg \<Rightarrow>
             if contains ''out of gas'' (lower error_msg)
             then add_events ([ev, Adapt Out_of_gas] @ backoff cfg attempt)
                    (retry_loop cfg sc tokens prices k (Suc attempt) (out_of_gas_adjust s))
             else if contains ''price change too large'' (lower error_msg) then (False, s, [ev])
             else if contains ''execution reverted'' (lower error_msg) then (False, s, [ev])
             else add_events ([ev] @ backoff cfg attempt)
                    (retry_loop cfg sc tokens prices k (Suc attempt) s))"

text \<open>
  \<^verbatim>\<open>PriceGenerator.update_prices_with_retry\<close>. Its third parameter \<^verbatim>\<open>updates\<close> is
  never read by the body and is left out.
\<close>

definition update_prices_with_retry ::
  "price_config \<Rightarrow> script \<Rightarrow> string list \<Rightarrow> int list \<Rightarrow> adaptive_state
     \<Rightarrow> bool \<times> adaptive_state \<times> event list" where
  "update_prices_with_retry cfg sc tokens prices s =
     (if \<not> preflight_ok sc then (False, s, [Invoked tokens prices])
      else add_events [Invoked tokens prices]
             (retry_loop cfg sc tokens prices (nat (retry_attempts cfg)) 0 s))"

text \<open>
  The fallback loop of \<^verbatim>\<open>update_prices\<close> over
  \<^verbatim>\<open>zip(token_batch, price_batch, update_batch.items())\<close>; invocation \<open>i\<close> is
  answered by \<open>scripts i\<close>. The individual result only feeds a log line.
\<close>

fun submit_individually ::
  "price_config \<Rightarrow> (nat \<Rightarrow> script) \<Rightarrow> nat \<Rightarrow> (string \<times> int \<times> string \<times> rat) list
     \<Rightarrow> adaptive_state \<Rightarrow> adaptive_state \<times> event list" where
  "submit_individually cfg scripts i [] s = (s, [])"
| "submit_individually cfg scripts i ((token_addr, price, upd) # rest) s =
     (case update_prices_with_retry cfg (scripts i) [token_addr] [price] s of
        (individual_success, s1, es) \<Rightarrow>
          (case submit_individually cfg scripts (Suc i) rest s1 of
             (s2, es') \<Rightarrow> (s2, es @ es')))"

text \<open>
  One iteration of the submission loop of \<^verbatim>\<open>update_prices\<close>: the batch is sent by
  invocation 0; the result is the \<^verbatim>\<open>success\<close> flag, the state and the events.
\<close>

definition submit_batch ::
  "price_config \<Rightarrow> (nat \<Rightarrow> script) \<Rightarrow> string list \<Rightarrow> int list \<Rightarrow> (string \<times> rat) list
     \<Rightarrow> adaptive_state \<Rightarrow> bool \<times> adaptive_state \<times> event list" where
  "submit_batch cfg scripts token_batch price_batch update_batch s =
     (case update_prices_with_retry cfg (scripts 0) token_batch price_batch s of
        (success, s1, es) \<Rightarrow>
          if success then (True, s1, es)
          else (let s2 = adjust_batch_size_on_failure s1 in
                if 1 < length token_batch
                then (case submit_individually cfg scripts 1
                             (zip token_batch (zip price_batch update_batch)) s2 of
                        (s3, es') \<Rightarrow> (False, s3, es @ [Adapt On_failure] @ es'))
                else (False, s2, es @ [Adapt On_failure])))"

text \<open>
  The submission part of \<^verbatim>\<open>update_prices\<close>, from \<^verbatim>\<open>all_success = True\<close> on, over
  the batches planned before it; batch \<open>b\<close> is answered by \<open>scriptss b\<close>.
\<close>

fun submit_batches ::
  "price_config \<Rightarrow> (nat \<Rightarrow> nat \<Rightarrow> script) \<Rightarrow> nat
     \<Rightarrow> (string list \<times> int list \<times> (string \<times> rat) list) list
     \<Rightarrow> bool \<Rightarrow> adaptive_state \<Rightarrow> bool \<times> adaptive_state \<times> event list" where
  "submit_batches cfg scriptss b [] all_success s = (all_success, s, [])"
| "submit_batches cfg scriptss b ((token_batch, price_batch, update_batch) # rest) all_success s =
     (case submit_batch cfg (scriptss b) token_batch price_batch update_batch s of
        (success, s1, es) \<Rightarrow>
          add_events es
            (submit_batches cfg scriptss (Suc b) rest (all_success \<and> success) s1))"

text \<open>
  \<^verbatim>\<open>PriceGenerator.update_prices\<close> once the batches are planned: the submission loop
  and the final \<^verbatim>\<open>if all_success\<close>. The pause check, the price generation and the
  slicing into batches that precede it are not part of this function.
\<close>

definition update_prices ::
  "price_config \<Rightarrow> (nat \<Rightarrow> nat \<Rightarrow> script)
     \<Rightarrow> string list list \<Rightarrow> int list list \<Rightarrow> (string \<times> rat) list list
     \<Rightarrow> adaptive_state \<Rightarrow> adaptive_state \<times> event list" where
  "update_prices cfg scriptss token_batches price_batches update_batches s =
     (case submit_batches cfg scriptss 0
             (zip token_batches (zip price_batches update_batches)) True s of
        (all_success, s1, es) \<Rightarrow>
          if all_success
          then (reset_adaptive_params_on_success cfg s1, es @ [Adapt On_success])
          else (s1, es))"

text \<open>Reading a trace: the invocations, the attempts and the adaptive writes, in order.\<close>

fun invocations :: "event list \<Rightarrow> (string list \<times> int list) list" where
  "invocations [] = []"
| "invocations (Invoked tokens prices # es) = (tokens, prices) # invocations es"
| "invocations (e # es) = invocations es"

fun attempts :: "event list \<Rightarrow> (string list \<times> nat) list" where
  "attempts [] = []"
| "attempts (Attempted tokens attempt gas_limit gas_price # es) = (tokens, attempt) # attempts es"
| "attempts (e # es) = attempts es"

fun adaptations :: "event list \<Rightarrow> transition list" where
  "adaptations [] = []"
| "adaptations (Adapt t # es) = t # adaptations es"
| "adaptations (e # es) = adaptations es"

text \<open>
  The attempts grouped by invocation: \<open>collect es\<close> is the attempt numbers seen before
  the first invocation in \<open>es\<close>, and then every invocation of \<open>es\<close> with the attempt
  numbers made between its start and the start of the next.
\<close>

fun collect :: "event list \<Rightarrow> nat list \<times> ((string list \<times> int list) \<times> nat list) list" where
  "collect [] = ([], [])"
| "collect (Invoked tokens prices # es) =
     (case collect es of (cur, rest) \<Rightarrow> ([], ((tokens, prices), cur) # rest))"
| "collect (Attempted tokens attempt gas_limit gas_price # es) =
     (case collect es of (cur, rest) \<Rightarrow> (attempt # cur, rest))"
| "collect (e # es) = collect es"

definition attempts_by_invocation ::
  "event list \<Rightarrow> ((string list \<times> int list) \<times> nat list) list" where
  "attempts_by_invocation es = snd (collect es)"

text \<open>
  The attempt numbers an invocation makes when it is the only one, run from the initial
  state: the budget of attempts it is given and how far its own answers let it go.
\<close>

definition solo_attempts :: "price_config \<Rightarrow> script \<Rightarrow> string list \<Rightarrow> int list \<Rightarrow> nat list" where
  "solo_attempts cfg sc tokens prices =
     map snd (attempts (snd (snd (update_prices_with_retry cfg sc tokens prices initial_state))))"

text \<open>
  An attempt that fails and is followed by the next iteration of the loop: a receipt
  whose status is not 1, or an exception whose text is not one of the two terminal ones
  (the "out of gas" test comes first in the \<^verbatim>\<open>if\<close>/\<^verbatim>\<open>elif\<close> chain).
\<close>

fun retryable :: "outcome \<Rightarrow> bool" where
  "retryable Sim_failed = False"
| "retryable (Receipt status) = (status \<noteq> 1)"
| "retryable (Error error_msg) =
     (contains ''out of gas'' (lower error_msg) \<or>
      \<not> (contains ''price change too large'' (lower error_msg) \<or>
         contains ''execution reverted'' (lower error_msg)))"

text \<open>
  The pre-flight reads of an invocation succeed and every attempt it can make fails in a
  retryable way.
\<close>

definition exhausts :: "price_config \<Rightarrow> script \<Rightarrow> bool" where
  "exhausts cfg sc \<longleftrightarrow>
     preflight_ok sc \<and> (\<forall>a < nat (retry_attempts cfg). retryable (outcomes sc a))"

section \<open>Keeper: position scan\<close>

text \<open>
  From \<^verbatim>\<open>src/keeper\<close>. The module \<^verbatim>\<open>contracts\<close> of the keeper (\<^verbatim>\<open>ContractManager\<close>,
  \<^verbatim>\<open>PositionInfo\<close>) is not part of the sources at hand: a position carries the fields
  the scan reads, and each chain read is an argument that either raised or returned.
\<close>

record position_info =
  token :: string
  position_type :: int
  entry_price :: int
  is_open :: bool

datatype 'a fetched = Raised | Returned 'a

record keeper_config =
  private_key :: string
  contracts :: "string \<rightharpoonup> string"
  order_check_interval :: int
  liquidation_threshold :: int

text \<open>\<^verbatim>\<open>ConfigManager.get_contract_address\<close>.\<close>

definition get_contract_address :: "keeper_config \<Rightarrow> string \<Rightarrow> string" where
  "get_contract_address cfg contract_name =
     (let address0 = (case contracts cfg contract_name of None \<Rightarrow> [] | Some a \<Rightarrow> a)
      in if address0 = [] \<and> contract_name = ''Router''
         then (case contracts cfg ''RouterProxy'' of None \<Rightarrow> [] | Some a \<Rightarrow> a)
         else address0)"

text \<open>
  \<^verbatim>\<open>ConfigManager.validate_config\<close>: the list of error messages;
  \<^verbatim>\<open>KeeperService._validate_config\<close> refuses to start unless it is empty.
\<close>

definition validate_config :: "keeper_config \<Rightarrow> string list" where
  "validate_config cfg =
     (if private_key cfg = [] then [''Private key not set''] else []) @
     (if get_contract_address cfg ''Router'' = [] then [''Contract Router address not found'']
      else []) @
     (if order_check_interval cfg < 1 then [''Order check interval must be >= 1''] else []) @
     (if 0 \<le> liquidation_threshold cfg then [''Liquidation threshold must be negative'']
      else [])"

text \<open>
  \<^verbatim>\<open>DiagnosticService.calculate_pnl_ratio\<close>; \<open>price\<close> is the result of
  \<^verbatim>\<open>get_price(position.token)\<close>. A zero entry price raises \<^verbatim>\<open>ZeroDivisionError\<close>,
  which the \<^verbatim>\<open>except\<close> branch turns into 0.0. The numerator is computed on integers;
  the true division gives the binary64 number nearest to the quotient.
\<close>

definition calculate_pnl_ratio :: "position_info \<Rightarrow> int option fetched \<Rightarrow> rat" where
  "calculate_pnl_ratio position price =
     (case price of
        Raised \<Rightarrow> 0
      | Returned None \<Rightarrow> 0
      | Returned (Some current_price) \<Rightarrow>
          if entry_price position = 0 then 0
          else if position_type position = 0
          then int_true_div ((current_price - entry_price position) * 100) (entry_price position)
          else int_true_div ((entry_price position - current_price) * 100) (entry_price position))"

text \<open>
  The body of the loop of \<^verbatim>\<open>KeeperService._check_positions\<close> for one position id:
  whether the position is a liquidation candidate, for which
  \<^verbatim>\<open>_liquidate_position_with_retry\<close> is then called. An exception while fetching the
  position skips the id.
\<close>

definition check_position ::
  "keeper_config \<Rightarrow> position_info option fetched \<Rightarrow> int option fetched \<Rightarrow> bool" where
  "check_position cfg position price =
     (case position of
        Raised \<Rightarrow> False
      | Returned None \<Rightarrow> False
      | Returned (Some p) \<Rightarrow>
          if \<not> is_open p then False
          else calculate_pnl_ratio p price \<le> of_int (liquidation_threshold cfg))"

text \<open>
  \<^verbatim>\<open>KeeperService._check_positions\<close>: the ids, in \<^verbatim>\<open>range(1, next_position_id)\<close>,
  for which liquidation is attempted. \<open>positions i\<close> and \<open>prices i\<close> are the reads made
  while id \<open>i\<close> is checked.
\<close>

definition check_positions ::
  "keeper_config \<Rightarrow> int fetched \<Rightarrow> (int \<Rightarrow> position_info option fetched)
     \<Rightarrow> (int \<Rightarrow> int option fetched) \<Rightarrow> int list" where
  "check_positions cfg next_position_id positions prices =
     (case next_position_id of
        Raised \<Rightarrow> []
      | Returned n \<Rightarrow> filter (\<lambda>i. check_position cfg (positions i) (prices i)) [1..n - 1])"

text \<open>
  Start-up, from \<^verbatim>\<open>main\<close> in \<^verbatim>\<open>src/keeper/main.py\<close>. The command line options that
  touch the fields above: an absent option is \<open>None\<close>. \<^verbatim>\<open>KeeperService.__init__\<close>
  validates the configuration it loaded and raises unless there is no error; \<^verbatim>\<open>main\<close>
  then collects the options that are truthy (a non-empty string, a non-zero integer) and
  writes them into the configuration with \<^verbatim>\<open>update_config\<close>, which does not validate.
  The result is the configuration the scans run with, \<open>None\<close> when start-up is refused.
\<close>

record keeper_args =
  arg_private_key :: "string option"
  arg_order_interval :: "int option"
  arg_liquidation_threshold :: "int option"

definition update_config :: "keeper_config \<Rightarrow> keeper_args \<Rightarrow> keeper_config" where
  "update_config cfg args =
     cfg\<lparr> private_key :=
            (case arg_private_key args of
               Some k \<Rightarrow> if k \<noteq> [] then k else private_key cfg
             | None \<Rightarrow> private_key cfg),
          order_check_interval :=
            (case arg_order_interval args of
               Some n \<Rightarrow> if n \<noteq> 0 then n else order_check_interval cfg
             | None \<Rightarrow> order_check_interval cfg),
          liquidation_threshold :=
            (case arg_liquidation_threshold args of
               Some t \<Rightarrow> if t \<noteq> 0 then t else liquidation_threshold cfg
             | None \<Rightarrow> liquidation_threshold cfg) \<rparr>"

definition keeper_startup :: "keeper_config \<Rightarrow> keeper_args \<Rightarrow> keeper_config option" where
  "keeper_startup cfg args =
     (if validate_config cfg = [] then Some (update_config cfg args) else None)"

section \<open>Invariants and example inputs\<close>

text \<open>Full degradation: four or more recorded failures force singletons at maximum gas.\<close>

definition degraded :: "adaptive_state \<Rightarrow> bool" where
  "degraded s \<longleftrightarrow>
     (4 \<le> failed_attempts s \<longrightarrow> current_batch_size s = 1 \<and> adaptive_gas_multiplier s = 2)"

text \<open>The bounds of the gas multiplier.\<close>

definition multiplier_in_range :: "adaptive_state \<Rightarrow> bool" where
  "multiplier_in_range s \<longleftrightarrow> 1 \<le> adaptive_gas_multiplier s \<and> adaptive_gas_multiplier s \<le> 2"

text \<open>
  Concrete inputs on which the results below are evaluated: the ETH entry that
  \<^verbatim>\<open>_load_config\<close> always creates, a long position, a keeper configuration that passes
  validation, a chain on which every attempt times out, and the price configuration with
  three attempts per invocation.
\<close>

definition eth_token :: token_config where
  "eth_token = \<lparr> symbol = ''ETH'', address = ''0x0000000000000000000000000000000000000000'',
       decimals = 18, initial_price = 2500, volatility = 1 / 100 \<rparr>"

definition example_position :: position_info where
  "example_position = \<lparr> token = ''0x0000000000000000000000000000000000000000'',
      position_type = 0, entry_price = 2000, is_open = True \<rparr>"

definition example_keeper_config :: keeper_config where
  "example_keeper_config = \<lparr> private_key = ''0xabc'',
      contracts = [''Router'' \<mapsto> ''0x5FbDB2315678afecb367f032d93F642f64180aa3''],
      order_check_interval = 5, liquidation_threshold = - 90 \<rparr>"

definition failing_script :: script where
  "failing_script = \<lparr> preflight_ok = True, gas_reads = (\<lambda>a. None),
       outcomes = (\<lambda>a. Error ''connection timed out'') \<rparr>"

definition three_attempts_config :: price_config where
  "three_attempts_config = default_price_config\<lparr>retry_attempts := 3\<rparr>"

text \<open>
  A chain that confirms the first attempt, and answers in which the batch and the second
  single update time out while the first single update is confirmed.
\<close>

definition confirming_script :: script where
  "confirming_script = \<lparr> preflight_ok = True, gas_reads = (\<lambda>a. None),
       outcomes = (\<lambda>a. Receipt 1) \<rparr>"

definition mixed_scripts :: "nat \<Rightarrow> script" where
  "mixed_scripts i = (if i = 1 then confirming_script else failing_script)"

text \<open>
  A long position with prices at the scale of wei, whose exact ratio at the price
  200000000000000000000 is a little above - 90, and the command line of a keeper started
  with \<^verbatim>\<open>--liquidation-threshold 5\<close>.
\<close>

definition wei_position :: position_info where
  "wei_position = \<lparr> token = ''0x0000000000000000000000000000000000000000'',
      position_type = 0, entry_price = 1999999999999999999999, is_open = True \<rparr>"

definition threshold_five_args :: keeper_args where
  "threshold_five_args = \<lparr> arg_private_key = None, arg_order_interval = None,
      arg_liquidation_threshold = Some 5 \<rparr>"

section \<open>The full degradation invariant\<close>

lemma degraded_initial: "degraded initial_state"
  by (simp add: degraded_def initial_state_def)

lemma degraded_failure: "degraded (adjust_batch_size_on_failure s)"
  by (simp add: degraded_def adjust_batch_size_on_failure_def Let_def)

lemma degraded_success:
  "degraded s \<Longrightarrow> degraded (reset_adaptive_params_on_success cfg s)"
  by (auto simp add: degraded_def reset_adaptive_params_on_success_def Let_def)

lemma degraded_out_of_gas: "degraded s \<Longrightarrow> degraded (out_of_gas_adjust s)"
  by (simp add: degraded_def out_of_gas_adjust_def)

lemma degraded_step: "degraded s \<Longrightarrow> degraded (step cfg s t)"
  by (cases t) (simp_all add: degraded_failure degraded_success degraded_out_of_gas)

lemma degraded_foldl: "degraded s \<Longrightarrow> degraded (foldl (step cfg) s ts)"
  by (induction ts arbitrary: s) (simp_all add: degraded_step)

text \<open>
  Claim C1. In every state reached from the initial state by any sequence of failure,
  success and out-of-gas adjustments, four or more recorded failures mean that the batch
  size is 1 and the gas multiplier is 2.
\<close>

theorem full_degradation_invariant:
  "4 \<le> failed_attempts (run cfg ts) \<Longrightarrow>
     current_batch_size (run cfg ts) = 1 \<and> adaptive_gas_multiplier (run cfg ts) = 2"
  using degraded_foldl [OF degraded_initial, of cfg ts]
  by (simp add: run_def degraded_def)

theorem full_degradation_invariant_witness:
  "4 \<le> failed_attempts
          (run default_price_config [On_failure, On_failure, On_failure, On_failure, On_failure]) \<and>
   current_batch_size
          (run default_price_config [On_failure, On_failure, On_failure, On_failure, On_failure]) = 1 \<and>
   adaptive_gas_multiplier
          (run default_price_config [On_failure, On_failure, On_failure, On_failure, On_failure]) = 2"
proof -
  have h: "4 \<le> failed_attempts
      (run default_price_config [On_failure, On_failure, On_failure, On_failure, On_failure])"
    by (simp add: run_def initial_state_def adjust_batch_size_on_failure_def Let_def)
  from full_degradation_invariant [OF h] h show ?thesis by simp
qed

section \<open>Adaptive batch size\<close>

lemma success_never_shrinks_batch:
  "current_batch_size s \<le> current_batch_size (reset_adaptive_params_on_success cfg s)"
  by (simp add: reset_adaptive_params_on_success_def Let_def)

lemma failure_never_grows_batch_above_one:
  "2 \<le> current_batch_size s \<Longrightarrow>
     current_batch_size (adjust_batch_size_on_failure s) \<le> current_batch_size s"
  by (simp add: adjust_batch_size_on_failure_def Let_def)

lemma batch_size_in_range_step:
  assumes "2 \<le> max_batch_size cfg"
      and "1 \<le> current_batch_size s \<and> current_batch_size s \<le> max_batch_size cfg"
  shows "1 \<le> current_batch_size (step cfg s t) \<and>
         current_batch_size (step cfg s t) \<le> max_batch_size cfg"
  using assms
  by (cases t)
     (auto simp add: adjust_batch_size_on_failure_def reset_adaptive_params_on_success_def
        out_of_gas_adjust_def Let_def)

lemma batch_size_in_range_foldl:
  assumes "2 \<le> max_batch_size cfg"
      and "1 \<le> current_batch_size s \<and> current_batch_size s \<le> max_batch_size cfg"
  shows "1 \<le> current_batch_size (foldl (step cfg) s ts) \<and>
         current_batch_size (foldl (step cfg) s ts) \<le> max_batch_size cfg"
  using assms(2)
proof (induction ts arbitrary: s)
  case Nil
  then show ?case by simp
next
  case (Cons t ts)
  from batch_size_in_range_step [OF assms(1) Cons.prems] Cons.IH show ?case by simp
qed

lemma batch_size_in_range:
  assumes "6 \<le> max_batch_size cfg"
  shows "1 \<le> current_batch_size (run cfg ts) \<and> current_batch_size (run cfg ts) \<le> max_batch_size cfg"
proof -
  have "2 \<le> max_batch_size cfg" using assms by simp
  moreover have "1 \<le> current_batch_size initial_state \<and>
      current_batch_size initial_state \<le> max_batch_size cfg"
    using assms by (simp add: initial_state_def)
  ultimately show ?thesis unfolding run_def by (rule batch_size_in_range_foldl)
qed

text \<open>
  Claim C4. The batch size is meant never to grow on a failure step. After four failures
  and three successes the batch size is 1 with one failure still recorded; the next
  failure makes the count 2, and the first branch of the failure handler, whose floor
  is 2, raises the batch size from 1 to 2 (while logging that it reduces it).
\<close>

theorem failure_step_raises_batch_size:
  "current_batch_size (run default_price_config
       [On_failure, On_failure, On_failure, On_failure, On_success, On_success, On_success]) = 1 \<and>
   current_batch_size (run default_price_config
       [On_failure, On_failure, On_failure, On_failure, On_success, On_success, On_success,
        On_failure]) = 2"
  by (simp add: run_def initial_state_def adjust_batch_size_on_failure_def Let_def
      reset_adaptive_params_on_success_def default_price_config_def)

section \<open>Gas limit\<close>

text \<open>
  Claim C2, as stated, has the gas limit follow the gas multiplier and stop at the
  configured maximum. It does neither: one recorded failure changes the limit although
  the gas multiplier is still 1, and six tokens get a limit above the configured
  \<^verbatim>\<open>max_gas_limit\<close>.
\<close>

theorem gas_limit_ignores_multiplier_and_config_cap:
  "adaptive_gas_multiplier (run default_price_config [On_failure]) =
     adaptive_gas_multiplier (run default_price_config []) \<and>
   get_smart_gas_limit (run default_price_config [On_failure]) 1 0 \<noteq>
     get_smart_gas_limit (run default_price_config []) 1 0 \<and>
   max_gas_limit default_price_config < get_smart_gas_limit (run default_price_config []) 6 0"
  by code_simp

lemma smart_gas_limit_rounding:
  "get_smart_gas_limit initial_state 6 2 = 7979999"
  "get_smart_gas_limit (initial_state\<lparr>failed_attempts := 4\<rparr>) 1 4 = 2015999"
  "get_smart_gas_limit (initial_state\<lparr>failed_attempts := 1\<rparr>) 1 0 = 880000"
  by code_simp+

text \<open>
  Claim C2, amended. The gas limit of a submission is the base cost (800000 for one
  token, 2500000 for up to three, 1500000 plus 700000 per token beyond that) times
  (1.0 + attempt * 0.2) times (1.0 + failedAttempts * 0.1), computed from left to right in
  binary64 arithmetic with every operation rounded to nearest, then truncated to an
  integer and capped at the constant 8000000; it does not depend on the gas multiplier.
  Six tokens at attempt 2 with no recorded failure get 7979999.
\<close>

theorem smart_gas_limit_formula:
  "get_smart_gas_limit s n attempt =
     min (py_int
            (float_mul
               (float_mul
                  (float_of_int
                     (if n = 1 then 800000 else if n \<le> 3 then 2500000 else 1500000 + n * 700000))
                  (float_add 1 (float_mul (float_of_int attempt) (float_literal (2 / 10)))))
               (float_add 1
                  (float_mul (float_of_int (failed_attempts s)) (float_literal (1 / 10))))))
         8000000
   \<and> get_smart_gas_limit (s\<lparr>adaptive_gas_multiplier := m\<rparr>) n attempt = get_smart_gas_limit s n attempt
   \<and> get_smart_gas_limit s n attempt \<le> 8000000
   \<and> get_smart_gas_limit initial_state 6 2 = 7979999"
  using smart_gas_limit_rounding(1)
  by (simp add: get_smart_gas_limit_def base_gas_def Let_def)

section \<open>Gas price\<close>

lemma nonzero_reading_falls_back:
  "w \<noteq> 0 \<Longrightarrow> get_dynamic_gas_price cfg s (Some w) = to_wei_gwei (base_gas_price_gwei cfg)"
  by (simp add: get_dynamic_gas_price_def from_wei_gwei_def times_float_def)

lemma zero_reading_reaches_formula:
  "get_dynamic_gas_price cfg s (Some 0) =
     to_wei_gwei (py_int (max (of_int (base_gas_price_gwei cfg))
                              (min (0 * (12 / 10)) (of_int (max_gas_price_gwei cfg)))
                          * adaptive_gas_multiplier s))"
  by (simp add: get_dynamic_gas_price_def from_wei_gwei_def times_float_def Let_def)

text \<open>
  Claim C5. The estimate is meant to be the network price in gwei times 1.2, clamped
  between the configured base and maximum, times the gas multiplier, truncated to whole
  gwei: 24 gwei for 20 gwei on the network, bounds 10 and 100 and multiplier 1. On that
  input the conversion to gwei yields a \<^verbatim>\<open>Decimal\<close>, its product with the float 1.2
  raises, and the handler returns the base price: 10 gwei.
\<close>

theorem gas_price_falls_back_to_base:
  "get_dynamic_gas_price
     (default_price_config\<lparr>base_gas_price_gwei := 10, max_gas_price_gwei := 100\<rparr>)
     initial_state (Some (to_wei_gwei 20)) = to_wei_gwei 10"
  by (simp add: get_dynamic_gas_price_def from_wei_gwei_def times_float_def to_wei_gwei_def)

lemma py_int_lower: "0 \<le> x \<Longrightarrow> of_int lo \<le> x \<Longrightarrow> lo \<le> py_int x"
  by (simp add: py_int_def le_floor_iff)

lemma py_int_upper: "0 \<le> x \<Longrightarrow> x \<le> of_int hi \<Longrightarrow> py_int x \<le> hi"
  by (simp add: py_int_def floor_le_iff)

lemma multiplier_in_range_step:
  "multiplier_in_range s \<Longrightarrow> multiplier_in_range (step cfg s t)"
  by (cases t)
     (auto simp add: multiplier_in_range_def adjust_batch_size_on_failure_def
        reset_adaptive_params_on_success_def out_of_gas_adjust_def Let_def)

lemma multiplier_in_range_foldl:
  "multiplier_in_range s \<Longrightarrow> multiplier_in_range (foldl (step cfg) s ts)"
  by (induction ts arbitrary: s) (simp_all add: multiplier_in_range_step)

lemma multiplier_in_range_run: "multiplier_in_range (run cfg ts)"
  unfolding run_def
  by (rule multiplier_in_range_foldl) (simp add: multiplier_in_range_def initial_state_def)

lemma gas_price_bounds_gwei:
  fixes lo hi :: int and m x :: rat
  assumes "0 \<le> lo" "lo \<le> hi" "1 \<le> m" "m \<le> 2"
  shows "lo \<le> py_int (max (of_int lo) (min x (of_int hi)) * m)"
    and "py_int (max (of_int lo) (min x (of_int hi)) * m) \<le> 2 * hi"
proof -
  let ?a = "max (of_int lo) (min x (of_int hi)) :: rat"
  have a_lo: "of_int lo \<le> ?a" by simp
  have a_hi: "?a \<le> of_int hi" using assms(2) by simp
  have a_nonneg: "0 \<le> ?a" using a_lo assms(1) by (meson of_int_0_le_iff order_trans)
  have "?a * 1 \<le> ?a * m" using a_nonneg assms(3) by (rule mult_left_mono[rotated])
  then have lower: "of_int lo \<le> ?a * m" using a_lo by simp
  have "?a * m \<le> ?a * 2" using a_nonneg assms(4) by (rule mult_left_mono[rotated])
  also have "\<dots> \<le> of_int hi * 2" using a_hi by simp
  finally have upper: "?a * m \<le> of_int (2 * hi)" by (simp add: mult.commute)
  have nonneg: "0 \<le> ?a * m" using a_nonneg assms(3) by simp
  show "lo \<le> py_int (?a * m)" using nonneg lower by (rule py_int_lower)
  show "py_int (?a * m) \<le> 2 * hi" using nonneg upper by (rule py_int_upper)
qed

text \<open>
  Claim C6. For every network gas price (read or not) and every adaptive state reached by
  the adaptive transitions, with a configured base price that is non-negative and at most
  the configured maximum, the returned gas price is at least the base price and at most
  twice the maximum (both in gwei, the result being in wei).
\<close>

theorem gas_price_within_bounds:
  assumes "base_gas_price_gwei cfg \<le> max_gas_price_gwei cfg"
      and "0 \<le> base_gas_price_gwei cfg"
  shows "to_wei_gwei (base_gas_price_gwei cfg)
           \<le> get_dynamic_gas_price cfg (run cfg ts) latest_gas_price \<and>
         get_dynamic_gas_price cfg (run cfg ts) latest_gas_price
           \<le> to_wei_gwei (2 * max_gas_price_gwei cfg)"
proof -
  have fallback: "to_wei_gwei (base_gas_price_gwei cfg) \<le> to_wei_gwei (base_gas_price_gwei cfg) \<and>
      to_wei_gwei (base_gas_price_gwei cfg) \<le> to_wei_gwei (2 * max_gas_price_gwei cfg)"
    using assms by (simp add: to_wei_gwei_def)
  show ?thesis
  proof (cases latest_gas_price)
    case None
    with fallback show ?thesis by (simp add: get_dynamic_gas_price_def)
  next
    case (Some w)
    show ?thesis
    proof (cases "w = 0")
      case False
      with Some fallback show ?thesis by (simp add: nonzero_reading_falls_back)
    next
      case True
      have m: "1 \<le> adaptive_gas_multiplier (run cfg ts)" "adaptive_gas_multiplier (run cfg ts) \<le> 2"
        using multiplier_in_range_run [of cfg ts] by (simp_all add: multiplier_in_range_def)
      from gas_price_bounds_gwei [OF assms(2) assms(1) m, of "0 * (12 / 10)"] Some True show ?thesis
        by (simp add: zero_reading_reaches_formula to_wei_gwei_def)
    qed
  qed
qed

theorem gas_price_within_bounds_witness:
  "base_gas_price_gwei default_price_config \<le> max_gas_price_gwei default_price_config \<and>
   0 \<le> base_gas_price_gwei default_price_config \<and>
   to_wei_gwei 20 \<le> get_dynamic_gas_price default_price_config
        (run default_price_config [On_failure, On_failure, Out_of_gas]) (Some (to_wei_gwei 50)) \<and>
   get_dynamic_gas_price default_price_config
        (run default_price_config [On_failure, On_failure, Out_of_gas]) (Some (to_wei_gwei 50))
     \<le> to_wei_gwei 200"
proof -
  have h1: "base_gas_price_gwei default_price_config \<le> max_gas_price_gwei default_price_config"
    by (simp add: default_price_config_def)
  have h2: "0 \<le> base_gas_price_gwei default_price_config"
    by (simp add: default_price_config_def)
  have v: "base_gas_price_gwei default_price_config = 20" "max_gas_price_gwei default_price_config = 100"
    by (simp_all add: default_price_config_def)
  from gas_price_within_bounds [OF h1 h2, of "[On_failure, On_failure, Out_of_gas]" "Some (to_wei_gwei 50)"]
    h1 h2 v
  show ?thesis by simp
qed

section \<open>Price generation bounds\<close>

lemma price_change_bounds:
  assumes "0 \<le> max_price_change cfg"
  shows "- max_price_change cfg \<le> price_change cfg tok r_event u r_change"
    and "price_change cfg tok r_event u r_change \<le> max_price_change cfg"
  using assms by (simp_all add: price_change_def Let_def)

text \<open>
  Claim C10, amended. Provided the configured maximum price change is not negative, for
  every positive current price the generated price is at least the configured minimum
  price, the relative change is clamped to the interval from minus to plus the maximum
  price change before that floor is applied, and the result never exceeds the larger of
  the minimum price and the current price times one plus the maximum price change.
\<close>

theorem generate_price_bounds:
  assumes "0 \<le> max_price_change cfg" and "0 < current"
  shows "min_price cfg \<le> generate_price cfg tok current r_event u r_change \<and>
         - max_price_change cfg \<le> price_change cfg tok r_event u r_change \<and>
         price_change cfg tok r_event u r_change \<le> max_price_change cfg \<and>
         generate_price cfg tok current r_event u r_change
           \<le> max (min_price cfg) (current * (1 + max_price_change cfg))"
proof -
  let ?c = "price_change cfg tok r_event u r_change"
  have up: "?c \<le> max_price_change cfg" using assms(1) by (rule price_change_bounds)
  have lo: "- max_price_change cfg \<le> ?c" using assms(1) by (rule price_change_bounds)
  have "current * (1 + ?c) \<le> current * (1 + max_price_change cfg)"
    using up assms(2) by simp
  then have "generate_price cfg tok current r_event u r_change
           \<le> max (min_price cfg) (current * (1 + max_price_change cfg))"
    by (simp add: generate_price_def Let_def max.coboundedI2 max.commute)
  moreover have "min_price cfg \<le> generate_price cfg tok current r_event u r_change"
    by (simp add: generate_price_def Let_def)
  ultimately show ?thesis using up lo by simp
qed

theorem generate_price_bounds_witness:
  "0 \<le> max_price_change default_price_config \<and> (0::rat) < 2500 \<and>
   min_price default_price_config \<le> generate_price default_price_config eth_token 2500 (1/2) 2 (3/4) \<and>
   generate_price default_price_config eth_token 2500 (1/2) 2 (3/4)
     \<le> max (min_price default_price_config) (2500 * (1 + max_price_change default_price_config))"
proof -
  have h1: "0 \<le> max_price_change default_price_config" by (simp add: default_price_config_def)
  have h2: "(0::rat) < 2500" by simp
  from generate_price_bounds [OF h1 h2, of eth_token "1/2" 2 "3/4"] h1 h2 show ?thesis by simp
qed

text \<open>
  Claim C10, as stated, puts no condition on the maximum price change. With the value
  - 0.5 (the command line accepts any number) the clamp yields + 0.5, outside the
  interval, and the price 2500 becomes 3750, above the claimed bound.
\<close>

theorem generate_price_negative_max_change:
  "max (min_price (default_price_config\<lparr>max_price_change := - (1 / 2)\<rparr>))
       (2500 * (1 + max_price_change (default_price_config\<lparr>max_price_change := - (1 / 2)\<rparr>)))
     < generate_price (default_price_config\<lparr>max_price_change := - (1 / 2)\<rparr>) eth_token 2500 (1 / 2) 2 (1 / 2)
   \<and> max_price_change (default_price_config\<lparr>max_price_change := - (1 / 2)\<rparr>)
     < price_change (default_price_config\<lparr>max_price_change := - (1 / 2)\<rparr>) eth_token (1 / 2) 2 (1 / 2)"
  by (simp add: generate_price_def price_change_def default_price_config_def eth_token_def Let_def)

section \<open>Rounding to binary64\<close>

text \<open>
  Rounding never crosses an integer of magnitude at most \<open>2 ^ 53\<close>: such integers are
  representable, and rounding to nearest is monotone.
\<close>

lemma bitlen_ge_one: "0 < z \<Longrightarrow> 1 \<le> bitlen z"
  using bitlen_eq_zero_iff [of z] bitlen_nonneg [of z] by linarith

lemma powi_neg: "0 \<le> n \<Longrightarrow> (2::rat) powi (- n) = 1 / 2 ^ nat n"
  by (simp add: power_int_minus_divide power_int_nonneg_exp)

lemma binade_lower:
  assumes "0 < y"
  shows "2 powi (binade y) \<le> y"
proof (cases "1 \<le> y")
  case True
  then have pos: "0 < \<lfloor>y\<rfloor>" by simp
  have k: "0 \<le> bitlen \<lfloor>y\<rfloor> - 1" using bitlen_ge_one [OF pos] by simp
  have "(2::int) ^ nat (bitlen \<lfloor>y\<rfloor> - 1) \<le> \<lfloor>y\<rfloor>" using bitlen_bounds [OF pos] by simp
  then have "(of_int ((2::int) ^ nat (bitlen \<lfloor>y\<rfloor> - 1)) :: rat) \<le> of_int \<lfloor>y\<rfloor>"
    by (simp only: of_int_le_iff)
  also have "\<dots> \<le> y" by simp
  finally have "(2::rat) ^ nat (bitlen \<lfloor>y\<rfloor> - 1) \<le> y" by simp
  with True k show ?thesis by (simp add: binade_def power_int_nonneg_exp)
next
  case False
  with assms have inv: "1 < 1 / y" by simp
  then have pos: "0 < \<lfloor>1 / y\<rfloor>" by simp
  define k where "k = bitlen \<lfloor>1 / y\<rfloor> - 1"
  have k: "0 \<le> k" using bitlen_ge_one [OF pos] by (simp add: k_def)
  show ?thesis
  proof (cases "y * 2 powi k = 1")
    case True
    then have "y = 1 / 2 powi k" by (simp add: field_simps)
    then have "2 powi (- k) = y" by (simp add: power_int_minus_divide)
    with False True show ?thesis by (simp add: binade_def k_def Let_def)
  next
    case neq: False
    have "\<lfloor>1 / y\<rfloor> < 2 ^ nat (bitlen \<lfloor>1 / y\<rfloor>)" using bitlen_bounds [OF pos] by simp
    then have "\<lfloor>1 / y\<rfloor> + 1 \<le> 2 ^ nat (k + 1)" by (simp add: k_def)
    then have "(of_int (\<lfloor>1 / y\<rfloor> + 1) :: rat) \<le> of_int (2 ^ nat (k + 1))"
      by (simp only: of_int_le_iff)
    moreover have "1 / y < of_int (\<lfloor>1 / y\<rfloor> + 1)" by linarith
    ultimately have "1 / y \<le> 2 ^ nat (k + 1)" by simp
    then have "1 / 2 ^ nat (k + 1) \<le> y" using assms by (simp add: field_simps)
    moreover have "(2::rat) powi (- k - 1) = 1 / 2 ^ nat (k + 1)"
      using k powi_neg [of "k + 1"] by simp
    ultimately show ?thesis using False neq by (simp add: binade_def k_def Let_def)
  qed
qed

lemma round_half_even_ge_floor: "\<lfloor>r\<rfloor> \<le> round_half_even r"
  by (simp add: round_half_even_def Let_def)

lemma round_half_even_le_ceiling: "round_half_even r \<le> \<lceil>r\<rceil>"
proof (cases "r = of_int \<lfloor>r\<rfloor>")
  case True
  then have "r - of_int \<lfloor>r\<rfloor> = 0" by simp
  then show ?thesis by (simp add: round_half_even_def Let_def)
next
  case False
  then have "\<lceil>r\<rceil> = \<lfloor>r\<rfloor> + 1" by (simp add: ceiling_altdef)
  then show ?thesis by (simp add: round_half_even_def Let_def)
qed

lemma round_half_even_ge:
  assumes "of_int k \<le> r"
  shows "k \<le> round_half_even r"
proof -
  have "k \<le> \<lfloor>r\<rfloor>" using assms by (simp add: le_floor_iff)
  with round_half_even_ge_floor [of r] show ?thesis by linarith
qed

lemma round_half_even_le:
  assumes "r \<le> of_int k"
  shows "round_half_even r \<le> k"
proof -
  have "\<lceil>r\<rceil> \<le> k" using assms by (simp add: ceiling_le_iff)
  with round_half_even_le_ceiling [of r] show ?thesis by linarith
qed

lemma round_double_pos:
  assumes "0 < y"
  shows "round_double y = of_int (round_half_even (y / 2 powi (binade y - 52))) * 2 powi (binade y - 52)"
  using assms by (simp add: round_double_def Let_def)

lemma round_double_minus: "round_double (- x) = - round_double x"
  by (simp add: round_double_def Let_def)

lemma round_double_ge_int:
  assumes "0 < m" and "m \<le> 2 ^ 53" and "of_int m \<le> y"
  shows "of_int m \<le> round_double y"
proof -
  have ypos: "0 < y" using assms(1,3) by (meson of_int_0_less_iff less_le_trans)
  define e where "e = binade y"
  define q :: rat where "q = 2 powi (e - 52)"
  have qpos: "0 < q" by (simp add: q_def)
  have rd: "round_double y = of_int (round_half_even (y / q)) * q"
    using round_double_pos [OF ypos] by (simp add: q_def e_def)
  have low: "2 powi e \<le> y" using binade_lower [OF ypos] by (simp add: e_def)
  show ?thesis
  proof (cases "e \<le> 52")
    case True
    define k where "k = m * 2 ^ nat (52 - e)"
    have qinv: "q = 1 / 2 ^ nat (52 - e)"
      using True powi_neg [of "52 - e"] by (simp add: q_def)
    have kq: "of_int k * q = of_int m" by (simp add: k_def qinv)
    have "of_int k \<le> y / q" using assms(3) qpos kq by (simp add: pos_le_divide_eq)
    then have "k \<le> round_half_even (y / q)" by (rule round_half_even_ge)
    then have "(of_int k :: rat) \<le> of_int (round_half_even (y / q))" by simp
    moreover have "0 \<le> q" using qpos by simp
    ultimately have "of_int k * q \<le> of_int (round_half_even (y / q)) * q"
      by (rule mult_right_mono)
    with kq rd show ?thesis by simp
  next
    case False
    then have e: "53 \<le> e" by simp
    have split: "(2::rat) powi e = 2 ^ 52 * q"
      using power_int_add [of "2::rat" 52 "e - 52"] by (simp add: q_def)
    have "of_int (2 ^ 52) \<le> y / q" using low split qpos by (simp add: pos_le_divide_eq)
    then have "2 ^ 52 \<le> round_half_even (y / q)" by (rule round_half_even_ge)
    then have "(of_int (2 ^ 52) :: rat) \<le> of_int (round_half_even (y / q))"
      by (simp only: of_int_le_iff)
    moreover have "0 \<le> q" using qpos by simp
    ultimately have "of_int (2 ^ 52) * q \<le> of_int (round_half_even (y / q)) * q"
      by (rule mult_right_mono)
    then have "2 powi e \<le> round_double y" using split rd by simp
    moreover have "(2::rat) powi 53 \<le> 2 powi e" using e by (intro power_int_increasing) simp_all
    moreover have "(of_int m :: rat) \<le> 2 powi 53"
    proof -
      have "(of_int m :: rat) \<le> of_int (2 ^ 53)" using assms(2) by (simp only: of_int_le_iff)
      then show ?thesis by simp
    qed
    ultimately show ?thesis by linarith
  qed
qed

lemma round_double_le_int:
  assumes "0 < y" and "y \<le> of_int m" and "m \<le> 2 ^ 53"
  shows "round_double y \<le> of_int m"
proof -
  define e where "e = binade y"
  define q :: rat where "q = 2 powi (e - 52)"
  have qpos: "0 < q" by (simp add: q_def)
  have rd: "round_double y = of_int (round_half_even (y / q)) * q"
    using round_double_pos [OF assms(1)] by (simp add: q_def e_def)
  have low: "2 powi e \<le> y" using binade_lower [OF assms(1)] by (simp add: e_def)
  have m53: "(of_int m :: rat) \<le> 2 ^ 53"
  proof -
    have "(of_int m :: rat) \<le> of_int (2 ^ 53)" using assms(3) by (simp only: of_int_le_iff)
    then show ?thesis by simp
  qed
  have le52: "e \<le> 53"
  proof (rule ccontr)
    assume "\<not> e \<le> 53"
    then have "54 \<le> e" by simp
    then have "(2::rat) powi 54 \<le> 2 powi e" by (intro power_int_increasing) simp_all
    with low assms(2) m53 show False by simp
  qed
  show ?thesis
  proof (cases "e \<le> 52")
    case True
    define k where "k = m * 2 ^ nat (52 - e)"
    have qinv: "q = 1 / 2 ^ nat (52 - e)"
      using True powi_neg [of "52 - e"] by (simp add: q_def)
    have kq: "of_int k * q = of_int m" by (simp add: k_def qinv)
    have "y / q \<le> of_int k" using assms(2) qpos kq by (simp add: pos_divide_le_eq)
    then have "round_half_even (y / q) \<le> k" by (rule round_half_even_le)
    then have "(of_int (round_half_even (y / q)) :: rat) \<le> of_int k" by simp
    moreover have "0 \<le> q" using qpos by simp
    ultimately have "of_int (round_half_even (y / q)) * q \<le> of_int k * q"
      by (rule mult_right_mono)
    with kq rd show ?thesis by simp
  next
    case False
    with le52 have e: "e = 53" by simp
    then have "(2::rat) ^ 53 \<le> y" using low by simp
    with assms(2) m53 have y: "y = 2 ^ 53" and m: "(of_int m :: rat) = 2 ^ 53" by simp_all
    have "q = 2" using e by (simp add: q_def)
    with y have "y / q = of_int (2 ^ 52)" by simp
    then have "round_half_even (y / q) = 2 ^ 52"
      by (simp only: round_half_even_def Let_def floor_of_int) simp
    with rd \<open>q = 2\<close> m show ?thesis by simp
  qed
qed

lemma round_double_nonneg: "0 \<le> y \<Longrightarrow> 0 \<le> round_double y"
proof -
  assume "0 \<le> y"
  show ?thesis
  proof (cases "y = 0")
    case True
    then show ?thesis by (simp add: round_double_def)
  next
    case False
    with \<open>0 \<le> y\<close> have pos: "0 < y" by simp
    have "0 \<le> y / 2 powi (binade y - 52)" using pos by simp
    then have "0 \<le> \<lfloor>y / 2 powi (binade y - 52)\<rfloor>" by simp
    with round_half_even_ge_floor [of "y / 2 powi (binade y - 52)"]
    have "0 \<le> round_half_even (y / 2 powi (binade y - 52))" by linarith
    then show ?thesis using pos by (simp add: round_double_pos)
  qed
qed

lemma round_double_le_of_int:
  assumes "x \<le> of_int n" and "\<bar>n\<bar> \<le> 2 ^ 53"
  shows "round_double x \<le> of_int n"
proof (cases "0 < x")
  case True
  then have "0 < n" using assms(1) by (meson less_le_trans of_int_0_less_iff)
  with assms(2) have "n \<le> 2 ^ 53" by simp
  with True assms(1) show ?thesis by (rule round_double_le_int)
next
  case False
  then have neg: "x \<le> 0" by simp
  show ?thesis
  proof (cases "0 \<le> n")
    case True
    have "0 \<le> round_double (- x)" using neg by (intro round_double_nonneg) simp
    then have "round_double x \<le> 0" by (simp add: round_double_minus)
    with True show ?thesis by (meson of_int_0_le_iff order_trans)
  next
    case n: False
    then have m: "0 < - n" "- n \<le> 2 ^ 53" using assms(2) by simp_all
    have "of_int (- n) \<le> - x" using assms(1) by simp
    with m have "of_int (- n) \<le> round_double (- x)" by (rule round_double_ge_int)
    then show ?thesis by (simp add: round_double_minus)
  qed
qed

lemma round_double_examples:
  "round_double (- 90) = - 90"
  "\<not> round_double (- (1799 / 20)) \<le> - 90"
  "round_double (- (179999999999999999999900 / 1999999999999999999999)) = - 90"
  by code_simp+

section \<open>Liquidation candidates\<close>

text \<open>
  Claim C7, as stated, makes a long position a candidate if and only if the ratio
  (current - entry) * 100 / entry is at most the threshold. The division is a float
  division: at entry price 1999999999999999999999 and current price
  200000000000000000000 the quotient is above - 90 by about 5e-21, the computed ratio
  is - 90.0, and with threshold - 90 the position is a candidate.
\<close>

theorem rounded_ratio_reaches_threshold:
  "is_open wei_position \<and> position_type wei_position = 0 \<and> entry_price wei_position \<noteq> 0 \<and>
   \<not> (of_int ((200000000000000000000 - entry_price wei_position) * 100)
        / of_int (entry_price wei_position)
      \<le> (of_int (liquidation_threshold example_keeper_config) :: rat)) \<and>
   check_position example_keeper_config (Returned (Some wei_position))
     (Returned (Some 200000000000000000000))"
  by (simp add: wei_position_def example_keeper_config_def check_position_def
      calculate_pnl_ratio_def int_true_div_def round_double_examples)

text \<open>
  Claim C7, amended. For an open long position with a non-zero entry price whose current
  price is read, the ratio is computed as (current - entry) * 100 / entry, the division
  being Python's true division (the binary64 number nearest to the quotient), and the
  position is a liquidation candidate exactly when that computed ratio is at most the
  configured threshold. The comparison is inclusive: every position whose quotient is at
  or below the threshold is a candidate.
\<close>

theorem long_position_pnl_and_candidate:
  assumes "is_open p" and "position_type p = 0" and "entry_price p \<noteq> 0"
  shows "calculate_pnl_ratio p (Returned (Some current_price))
           = round_double (of_int ((current_price - entry_price p) * 100) / of_int (entry_price p)) \<and>
         (check_position cfg (Returned (Some p)) (Returned (Some current_price)) \<longleftrightarrow>
            calculate_pnl_ratio p (Returned (Some current_price))
              \<le> of_int (liquidation_threshold cfg)) \<and>
         (\<bar>liquidation_threshold cfg\<bar> \<le> 2 ^ 53 \<and>
          of_int ((current_price - entry_price p) * 100) / of_int (entry_price p)
              \<le> (of_int (liquidation_threshold cfg) :: rat)
            \<longrightarrow> check_position cfg (Returned (Some p)) (Returned (Some current_price)))"
proof -
  have ratio: "calculate_pnl_ratio p (Returned (Some current_price))
      = round_double (of_int ((current_price - entry_price p) * 100) / of_int (entry_price p))"
    using assms by (simp add: calculate_pnl_ratio_def int_true_div_def)
  have flag: "check_position cfg (Returned (Some p)) (Returned (Some current_price)) \<longleftrightarrow>
      calculate_pnl_ratio p (Returned (Some current_price)) \<le> of_int (liquidation_threshold cfg)"
    using assms by (simp add: check_position_def)
  have below: "check_position cfg (Returned (Some p)) (Returned (Some current_price))"
    if "\<bar>liquidation_threshold cfg\<bar> \<le> 2 ^ 53"
      and "of_int ((current_price - entry_price p) * 100) / of_int (entry_price p)
              \<le> (of_int (liquidation_threshold cfg) :: rat)"
    using round_double_le_of_int [OF that(2) that(1)] ratio flag by simp
  from ratio flag below show ?thesis by blast
qed

theorem long_position_pnl_and_candidate_witness:
  "is_open example_position \<and> position_type example_position = 0 \<and>
   entry_price example_position \<noteq> 0 \<and>
   calculate_pnl_ratio example_position (Returned (Some 200)) = - 90 \<and>
   check_position example_keeper_config (Returned (Some example_position)) (Returned (Some 200)) \<and>
   \<not> check_position example_keeper_config (Returned (Some example_position)) (Returned (Some 201)) \<and>
   is_open wei_position \<and> position_type wei_position = 0 \<and> entry_price wei_position \<noteq> 0 \<and>
   calculate_pnl_ratio wei_position (Returned (Some 200000000000000000000)) = - 90 \<and>
   check_position example_keeper_config (Returned (Some wei_position))
       (Returned (Some 200000000000000000000))"
proof -
  have h: "is_open example_position" "position_type example_position = 0"
    "entry_price example_position \<noteq> 0"
    by (simp_all add: example_position_def)
  have w: "is_open wei_position" "position_type wei_position = 0" "entry_price wei_position \<noteq> 0"
    by (simp_all add: wei_position_def)
  have e: "entry_price example_position = 2000" "entry_price wei_position = 1999999999999999999999"
    "liquidation_threshold example_keeper_config = - 90"
    by (simp_all add: example_position_def wei_position_def example_keeper_config_def)
  from long_position_pnl_and_candidate [OF h, of 200 example_keeper_config]
       long_position_pnl_and_candidate [OF h, of 201 example_keeper_config]
       long_position_pnl_and_candidate [OF w, of 200000000000000000000 example_keeper_config]
       h w
  show ?thesis
    by (simp add: e round_double_examples)
qed

lemma validate_config_threshold: "validate_config cfg = [] \<Longrightarrow> liquidation_threshold cfg < 0"
  by (simp add: validate_config_def split: if_splits)

lemma unavailable_price_ratio_zero:
  "price = Raised \<or> price = Returned None \<Longrightarrow> calculate_pnl_ratio p price = 0"
  by (auto simp add: calculate_pnl_ratio_def)

lemma unavailable_price_not_flagged:
  assumes "liquidation_threshold cfg < 0" and "price = Raised \<or> price = Returned None"
  shows "\<not> check_position cfg position price"
  using assms unavailable_price_ratio_zero [OF assms(2)]
  by (auto simp add: check_position_def split: fetched.splits option.splits)

lemma unavailable_price_not_scanned:
  assumes "liquidation_threshold cfg < 0" and "prices i = Raised \<or> prices i = Returned None"
  shows "i \<notin> set (check_positions cfg next_position_id positions prices)"
  using unavailable_price_not_flagged [OF assms]
  by (auto simp add: check_positions_def split: fetched.splits)

lemma startup_without_threshold_option:
  assumes "keeper_startup cfg args = Some cfg'" and "arg_liquidation_threshold args = None"
  shows "liquidation_threshold cfg' < 0"
  using assms validate_config_threshold [of cfg]
  by (auto simp add: keeper_startup_def update_config_def split: if_splits)

lemma example_keeper_config_valid: "validate_config example_keeper_config = []"
  by (simp add: validate_config_def example_keeper_config_def get_contract_address_def)

text \<open>
  Claim C9. When the price read returns nothing or raises, the ratio is 0, and start-up
  validation is meant to keep the threshold negative so that such a position is never a
  candidate. The validation runs on the configuration as loaded; the command line
  threshold is written afterwards without being validated. A keeper whose configuration
  passes validation, started with \<^verbatim>\<open>--liquidation-threshold 5\<close>, scans with threshold 5,
  finds 0 at most 5 for an open position whose price cannot be read, and liquidates it.
\<close>

theorem threshold_override_skips_validation:
  "validate_config example_keeper_config = [] \<and>
   map_option liquidation_threshold (keeper_startup example_keeper_config threshold_five_args)
     = Some 5 \<and>
   calculate_pnl_ratio example_position (Returned None) = 0 \<and>
   check_position (update_config example_keeper_config threshold_five_args)
     (Returned (Some example_position)) (Returned None) \<and>
   check_positions (update_config example_keeper_config threshold_five_args) (Returned 2)
     (\<lambda>i. Returned (Some example_position)) (\<lambda>i. Returned None) = [1]"
proof -
  have t: "liquidation_threshold (update_config example_keeper_config threshold_five_args) = 5"
    by (simp add: update_config_def threshold_five_args_def)
  have r: "calculate_pnl_ratio example_position (Returned None) = 0"
    by (simp add: calculate_pnl_ratio_def)
  have o: "is_open example_position" by (simp add: example_position_def)
  have c: "check_position (update_config example_keeper_config threshold_five_args)
     (Returned (Some example_position)) (Returned None)"
    by (simp add: check_position_def r t o)
  have u: "[1..2 - 1] = [1::int]" by (simp add: upto.simps)
  show ?thesis
    using example_keeper_config_valid t r c
    by (simp add: keeper_startup_def check_positions_def u)
qed

section \<open>Retry and fallback to single updates\<close>

lemma add_events_fst: "fst (add_events evs r) = fst r"
  by (simp add: add_events_def split: prod.splits)

lemma add_events_state: "fst (snd (add_events evs r)) = fst (snd r)"
  by (simp add: add_events_def split: prod.splits)

lemma add_events_events: "snd (snd (add_events evs r)) = evs @ snd (snd r)"
  by (simp add: add_events_def split: prod.splits)

lemmas add_events_simps = add_events_fst add_events_state add_events_events

lemma attempts_append: "attempts (xs @ ys) = attempts xs @ attempts ys"
  by (induction xs rule: attempts.induct) simp_all

lemma invocations_append: "invocations (xs @ ys) = invocations xs @ invocations ys"
  by (induction xs rule: invocations.induct) simp_all

lemma adaptations_append: "adaptations (xs @ ys) = adaptations xs @ adaptations ys"
  by (induction xs rule: adaptations.induct) simp_all

lemma backoff_projections:
  "attempts (backoff cfg a) = []" "invocations (backoff cfg a) = []"
  "adaptations (backoff cfg a) = []"
  by (simp_all add: backoff_def)

lemma retryable_index_error: "retryable (Error ''list index out of range'')"
  by (simp add: lower_def lower_char_def)

lemma retryable_attempt_outcome:
  "retryable answer \<Longrightarrow> retryable (attempt_outcome tokens prices answer)"
  unfolding attempt_outcome_def using retryable_index_error by simp

lemma out_of_gas_adjust_fields:
  "failed_attempts (out_of_gas_adjust s) = failed_attempts s"
  "current_batch_size (out_of_gas_adjust s) = current_batch_size s"
  by (simp_all add: out_of_gas_adjust_def)

lemma retry_loop_invocations:
  "invocations (snd (snd (retry_loop cfg sc tokens prices k a s))) = []"
proof (induction k arbitrary: a s)
  case 0
  show ?case by simp
next
  case (Suc k)
  show ?case
    by (simp add: Let_def add_events_simps invocations_append backoff_projections Suc
        split: outcome.splits)
qed

lemma retry_loop_exhausted:
  assumes "\<forall>j<k. retryable (outcomes sc (a + j))"
  shows "fst (retry_loop cfg sc tokens prices k a s) = False \<and>
         failed_attempts (fst (snd (retry_loop cfg sc tokens prices k a s))) = failed_attempts s \<and>
         current_batch_size (fst (snd (retry_loop cfg sc tokens prices k a s))) = current_batch_size s \<and>
         attempts (snd (snd (retry_loop cfg sc tokens prices k a s))) = map (Pair tokens) [a..<a + k] \<and>
         set (adaptations (snd (snd (retry_loop cfg sc tokens prices k a s)))) \<subseteq> {Out_of_gas}"
  using assms
proof (induction k arbitrary: a s)
  case 0
  show ?case by simp
next
  case (Suc k)
  have "retryable (outcomes sc (a + 0))"
    using Suc.prems by blast
  then have here: "retryable (attempt_outcome tokens prices (outcomes sc a))"
    by (simp add: retryable_attempt_outcome)
  have rest: "\<forall>j<k. retryable (outcomes sc (Suc a + j))"
  proof (intro allI impI)
    fix j assume "j < k"
    then have "Suc j < Suc k" by simp
    with Suc.prems have "retryable (outcomes sc (a + Suc j))" by blast
    then show "retryable (outcomes sc (Suc a + j))" by simp
  qed
  note ih = Suc.IH [OF rest]
  have range: "[a..<a + Suc k] = a # [Suc a..<Suc a + k]"
    by (simp add: upt_conv_Cons)
  show ?case
  proof (cases "attempt_outcome tokens prices (outcomes sc a)")
    case Sim_failed
    with here show ?thesis by simp
  next
    case (Receipt status)
    with here have "status \<noteq> 1" by simp
    with Receipt ih [of s] range show ?thesis
      by (simp add: Let_def add_events_simps)
  next
    case (Error msg)
    show ?thesis
    proof (cases "contains ''out of gas'' (lower msg)")
      case True
      with Error ih [of "out_of_gas_adjust s"] range show ?thesis
        by (simp add: Let_def add_events_simps attempts_append adaptations_append
            backoff_projections out_of_gas_adjust_fields)
    next
      case False
      with Error here have "\<not> contains ''price change too large'' (lower msg)"
        "\<not> contains ''execution reverted'' (lower msg)" by simp_all
      with False Error ih [of s] range show ?thesis
        by (simp add: Let_def add_events_simps attempts_append adaptations_append
            backoff_projections)
    qed
  qed
qed

lemma update_prices_with_retry_invocations:
  "invocations (snd (snd (update_prices_with_retry cfg sc tokens prices s))) = [(tokens, prices)]"
  by (simp add: update_prices_with_retry_def add_events_simps retry_loop_invocations)

lemma update_prices_with_retry_exhausted:
  assumes "exhausts cfg sc"
  shows "fst (update_prices_with_retry cfg sc tokens prices s) = False \<and>
         failed_attempts (fst (snd (update_prices_with_retry cfg sc tokens prices s))) = failed_attempts s \<and>
         current_batch_size (fst (snd (update_prices_with_retry cfg sc tokens prices s))) = current_batch_size s \<and>
         attempts (snd (snd (update_prices_with_retry cfg sc tokens prices s)))
           = map (Pair tokens) [0..<nat (retry_attempts cfg)] \<and>
         set (adaptations (snd (snd (update_prices_with_retry cfg sc tokens prices s)))) \<subseteq> {Out_of_gas}"
proof -
  from assms have pre: "preflight_ok sc"
    and all: "\<forall>j<nat (retry_attempts cfg). retryable (outcomes sc (0 + j))"
    by (simp_all add: exhausts_def)
  from retry_loop_exhausted [OF all, of cfg tokens prices s] pre show ?thesis
    by (simp add: update_prices_with_retry_def add_events_simps)
qed

lemma submit_individually_invocations:
  "invocations (snd (submit_individually cfg scripts i items s))
     = map (\<lambda>item. ([fst item], [fst (snd item)])) items"
proof (induction items arbitrary: i s)
  case Nil
  show ?case by simp
next
  case (Cons item items)
  obtain t p u where item: "item = (t, p, u)" by (cases item) auto
  obtain ok s1 es where r: "update_prices_with_retry cfg (scripts i) [t] [p] s = (ok, s1, es)"
    by (cases "update_prices_with_retry cfg (scripts i) [t] [p] s") auto
  have es: "invocations es = [([t], [p])]"
    using update_prices_with_retry_invocations [of cfg "scripts i" "[t]" "[p]" s] r by simp
  obtain s2 es' where r': "submit_individually cfg scripts (Suc i) items s1 = (s2, es')"
    by (cases "submit_individually cfg scripts (Suc i) items s1") auto
  from Cons.IH [of "Suc i" s1] r' have "invocations es' = map (\<lambda>item. ([fst item], [fst (snd item)])) items"
    by simp
  with item r r' es show ?case by (simp add: invocations_append)
qed

lemma submit_individually_exhausted:
  assumes "\<forall>j<length items. exhausts cfg (scripts (i + j))"
  shows "failed_attempts (fst (submit_individually cfg scripts i items s)) = failed_attempts s \<and>
         attempts (snd (submit_individually cfg scripts i items s))
           = concat (map (\<lambda>item. map (Pair [fst item]) [0..<nat (retry_attempts cfg)]) items) \<and>
         set (adaptations (snd (submit_individually cfg scripts i items s))) \<subseteq> {Out_of_gas}"
  using assms
proof (induction items arbitrary: i s)
  case Nil
  show ?case by simp
next
  case (Cons item items)
  obtain t p u where item: "item = (t, p, u)" by (cases item) auto
  have "exhausts cfg (scripts (i + 0))" using Cons.prems by (meson length_greater_0_conv list.discI)
  then have here: "exhausts cfg (scripts i)" by simp
  have rest: "\<forall>j<length items. exhausts cfg (scripts (Suc i + j))"
  proof (intro allI impI)
    fix j assume "j < length items"
    then have "Suc j < length (item # items)" by simp
    with Cons.prems have "exhausts cfg (scripts (i + Suc j))" by blast
    then show "exhausts cfg (scripts (Suc i + j))" by simp
  qed
  obtain ok s1 es where r: "update_prices_with_retry cfg (scripts i) [t] [p] s = (ok, s1, es)"
    by (cases "update_prices_with_retry cfg (scripts i) [t] [p] s") auto
  from update_prices_with_retry_exhausted [OF here, of "[t]" "[p]" s] r
  have one: "failed_attempts s1 = failed_attempts s"
    "attempts es = map (Pair [t]) [0..<nat (retry_attempts cfg)]"
    "set (adaptations es) \<subseteq> {Out_of_gas}"
    by simp_all
  obtain s2 es' where r': "submit_individually cfg scripts (Suc i) items s1 = (s2, es')"
    by (cases "submit_individually cfg scripts (Suc i) items s1") auto
  from Cons.IH [OF rest, of s1] r'
  have more: "failed_attempts s2 = failed_attempts s1"
    "attempts es' = concat (map (\<lambda>item. map (Pair [fst item]) [0..<nat (retry_attempts cfg)]) items)"
    "set (adaptations es') \<subseteq> {Out_of_gas}"
    by simp_all
  from item r r' one more show ?case
    by (simp add: attempts_append adaptations_append)
qed

lemma zip3_singletons:
  assumes "length ps = length ts" and "length us = length ts"
  shows "map (\<lambda>item. ([fst item], [fst (snd item)])) (zip ts (zip ps us))
       = map (\<lambda>(t, p). ([t], [p])) (zip ts ps)"
proof -
  have "length ts = length ps" "length ps = length us" using assms by simp_all
  then show ?thesis by (induction ts ps us rule: list_induct3) simp_all
qed

lemma zip3_firsts:
  assumes "length ps = length ts" and "length us = length ts"
  shows "map (\<lambda>item. f (fst item)) (zip ts (zip ps us)) = map f ts"
proof -
  have "length ts = length ps" "length ps = length us" using assms by simp_all
  then show ?thesis by (induction ts ps us rule: list_induct3) simp_all
qed

lemma failure_increments: "failed_attempts (adjust_batch_size_on_failure s) = failed_attempts s + 1"
  by (simp add: adjust_batch_size_on_failure_def Let_def)

lemma submit_batch_split:
  assumes "\<not> fst (update_prices_with_retry cfg (scripts 0) token_batch price_batch s)"
      and "1 < length token_batch"
      and "length price_batch = length token_batch"
      and "length update_batch = length token_batch"
  shows "invocations (snd (snd (submit_batch cfg scripts token_batch price_batch update_batch s)))
           = (token_batch, price_batch) # map (\<lambda>(t, p). ([t], [p])) (zip token_batch price_batch)"
proof -
  obtain ok s1 es where r: "update_prices_with_retry cfg (scripts 0) token_batch price_batch s = (ok, s1, es)"
    by (cases "update_prices_with_retry cfg (scripts 0) token_batch price_batch s") auto
  with assms(1) have ok: "\<not> ok" by simp
  have es: "invocations es = [(token_batch, price_batch)]"
    using update_prices_with_retry_invocations [of cfg "scripts 0" token_batch price_batch s] r by simp
  let ?items = "zip token_batch (zip price_batch update_batch)"
  obtain s3 es' where r': "submit_individually cfg scripts 1 ?items (adjust_batch_size_on_failure s1) = (s3, es')"
    by (cases "submit_individually cfg scripts 1 ?items (adjust_batch_size_on_failure s1)") auto
  have es': "invocations es' = map (\<lambda>(t, p). ([t], [p])) (zip token_batch price_batch)"
    using submit_individually_invocations [of cfg scripts 1 ?items "adjust_batch_size_on_failure s1"] r'
      zip3_singletons [OF assms(3) assms(4)] by simp
  from r r' ok assms(2) es es' show ?thesis
    by (simp add: submit_batch_def Let_def invocations_append)
qed

lemma only_out_of_gas_counts:
  assumes "set ts \<subseteq> {Out_of_gas}"
  shows "count_list ts On_failure = 0" and "count_list ts On_success = 0"
  using assms by (auto simp add: count_list_0_iff)

lemma submit_batch_exhausted:
  assumes "\<forall>i. exhausts cfg (scripts i)"
  shows "fst (submit_batch cfg scripts token_batch price_batch update_batch s) = False \<and>
         failed_attempts (fst (snd (submit_batch cfg scripts token_batch price_batch update_batch s)))
           = failed_attempts s + 1 \<and>
         count_list (adaptations (snd (snd (submit_batch cfg scripts token_batch price_batch update_batch s))))
           On_failure = 1 \<and>
         count_list (adaptations (snd (snd (submit_batch cfg scripts token_batch price_batch update_batch s))))
           On_success = 0 \<and>
         attempts (snd (snd (submit_batch cfg scripts token_batch price_batch update_batch s)))
           = map (Pair token_batch) [0..<nat (retry_attempts cfg)] @
             (if 1 < length token_batch
              then concat (map (\<lambda>item. map (Pair [fst item]) [0..<nat (retry_attempts cfg)])
                             (zip token_batch (zip price_batch update_batch)))
              else [])"
proof -
  have zero: "exhausts cfg (scripts 0)" using assms by simp
  obtain ok s1 es where r: "update_prices_with_retry cfg (scripts 0) token_batch price_batch s = (ok, s1, es)"
    by (cases "update_prices_with_retry cfg (scripts 0) token_batch price_batch s") auto
  from update_prices_with_retry_exhausted [OF zero, of token_batch price_batch s] r
  have batch: "\<not> ok" "failed_attempts s1 = failed_attempts s"
    "attempts es = map (Pair token_batch) [0..<nat (retry_attempts cfg)]"
    "set (adaptations es) \<subseteq> {Out_of_gas}"
    by simp_all
  note c = only_out_of_gas_counts [OF batch(4)]
  let ?s2 = "adjust_batch_size_on_failure s1"
  have f2: "failed_attempts ?s2 = failed_attempts s + 1"
    using batch(2) by (simp add: failure_increments)
  show ?thesis
  proof (cases "1 < length token_batch")
    case False
    with r batch f2 c show ?thesis
      by (simp add: submit_batch_def Let_def attempts_append adaptations_append)
  next
    case True
    let ?items = "zip token_batch (zip price_batch update_batch)"
    obtain s3 es' where r': "submit_individually cfg scripts 1 ?items ?s2 = (s3, es')"
      by (cases "submit_individually cfg scripts 1 ?items ?s2") auto
    have "\<forall>j<length ?items. exhausts cfg (scripts (1 + j))" using assms by simp
    from submit_individually_exhausted [OF this, of ?s2] r'
    have ind: "failed_attempts s3 = failed_attempts ?s2"
      "attempts es' = concat (map (\<lambda>item. map (Pair [fst item]) [0..<nat (retry_attempts cfg)]) ?items)"
      "set (adaptations es') \<subseteq> {Out_of_gas}"
      by simp_all
    note c' = only_out_of_gas_counts [OF ind(3)]
    from True r r' batch f2 c ind c' show ?thesis
      by (simp add: submit_batch_def Let_def attempts_append adaptations_append)
  qed
qed

text \<open>
  The trace is faithful to the state: replaying the adaptive writes it records, from the
  state before, gives the state after.
\<close>

lemma retry_loop_replay:
  "fst (snd (retry_loop cfg sc tokens prices k a s))
     = foldl (step cfg) s (adaptations (snd (snd (retry_loop cfg sc tokens prices k a s))))"
proof (induction k arbitrary: a s)
  case 0
  show ?case by simp
next
  case (Suc k)
  show ?case
    by (simp add: Let_def add_events_simps adaptations_append backoff_projections
        Suc [symmetric] split: outcome.splits)
qed

lemma update_prices_with_retry_replay:
  "fst (snd (update_prices_with_retry cfg sc tokens prices s))
     = foldl (step cfg) s (adaptations (snd (snd (update_prices_with_retry cfg sc tokens prices s))))"
  by (simp add: update_prices_with_retry_def add_events_simps retry_loop_replay [symmetric])

lemma submit_individually_replay:
  "fst (submit_individually cfg scripts i items s)
     = foldl (step cfg) s (adaptations (snd (submit_individually cfg scripts i items s)))"
proof (induction items arbitrary: i s)
  case Nil
  show ?case by simp
next
  case (Cons item items)
  obtain t p u where item: "item = (t, p, u)" by (cases item) auto
  obtain ok s1 es where r: "update_prices_with_retry cfg (scripts i) [t] [p] s = (ok, s1, es)"
    by (cases "update_prices_with_retry cfg (scripts i) [t] [p] s") auto
  have one: "s1 = foldl (step cfg) s (adaptations es)"
    using update_prices_with_retry_replay [of cfg "scripts i" "[t]" "[p]" s] r by simp
  obtain s2 es' where r': "submit_individually cfg scripts (Suc i) items s1 = (s2, es')"
    by (cases "submit_individually cfg scripts (Suc i) items s1") auto
  have "s2 = foldl (step cfg) s1 (adaptations es')"
    using Cons.IH [of "Suc i" s1] r' by simp
  with item r r' one show ?case by (simp add: adaptations_append)
qed

lemma submit_batch_replay:
  "fst (snd (submit_batch cfg scripts token_batch price_batch update_batch s))
     = foldl (step cfg) s
         (adaptations (snd (snd (submit_batch cfg scripts token_batch price_batch update_batch s))))"
proof -
  obtain ok s1 es where r: "update_prices_with_retry cfg (scripts 0) token_batch price_batch s = (ok, s1, es)"
    by (cases "update_prices_with_retry cfg (scripts 0) token_batch price_batch s") auto
  have one: "s1 = foldl (step cfg) s (adaptations es)"
    using update_prices_with_retry_replay [of cfg "scripts 0" token_batch price_batch s] r by simp
  let ?items = "zip token_batch (zip price_batch update_batch)"
  let ?s2 = "adjust_batch_size_on_failure s1"
  obtain s3 es' where r': "submit_individually cfg scripts 1 ?items ?s2 = (s3, es')"
    by (cases "submit_individually cfg scripts 1 ?items ?s2") auto
  have "s3 = foldl (step cfg) ?s2 (adaptations es')"
    using submit_individually_replay [of cfg scripts 1 ?items ?s2] r' by simp
  with r r' one show ?thesis
    by (simp add: submit_batch_def Let_def adaptations_append)
qed

lemma update_prices_single_batch:
  "update_prices cfg (\<lambda>b. scripts) [token_batch] [price_batch] [update_batch] s =
     (case submit_batch cfg scripts token_batch price_batch update_batch s of
        (success, s1, es) \<Rightarrow>
          if success then (reset_adaptive_params_on_success cfg s1, es @ [Adapt On_success])
          else (s1, es))"
  by (simp add: update_prices_def add_events_def split: prod.splits)

lemma update_prices_exhausted:
  assumes "\<forall>i. exhausts cfg (scripts i)"
  shows "failed_attempts (fst (update_prices cfg (\<lambda>b. scripts) [tokens] [prices] [updates] s))
           = failed_attempts s + 1 \<and>
         count_list (adaptations (snd (update_prices cfg (\<lambda>b. scripts) [tokens] [prices] [updates] s)))
           On_failure = 1 \<and>
         count_list (adaptations (snd (update_prices cfg (\<lambda>b. scripts) [tokens] [prices] [updates] s)))
           On_success = 0"
proof -
  obtain ok s1 es where r: "submit_batch cfg scripts tokens prices updates s = (ok, s1, es)"
    by (cases "submit_batch cfg scripts tokens prices updates s") auto
  from submit_batch_exhausted [OF assms, of tokens prices updates s] r
  have "\<not> ok" "failed_attempts s1 = failed_attempts s + 1"
    "count_list (adaptations es) On_failure = 1" "count_list (adaptations es) On_success = 0"
    by simp_all
  with r show ?thesis by (simp add: update_prices_single_batch)
qed

lemma failing_script_exhausts: "exhausts three_attempts_config failing_script"
  by (simp add: exhausts_def failing_script_def three_attempts_config_def lower_def lower_char_def)

text \<open>
  Claim C3, amended. With three attempts per invocation, when every attempt fails in a
  retryable way, the retry function makes exactly three attempts, returns failure, and
  leaves the failure counter alone: it makes neither the failure nor the success
  transition. The caller \<^verbatim>\<open>update_prices\<close> then makes the failure transition exactly
  once for the failed batch, so the failure counter grows by 1, and the success transition
  is never made.
\<close>

theorem exhausted_action_counts_one_failure:
  assumes "retry_attempts cfg = 3" and "\<forall>i. exhausts cfg (scripts i)"
  shows "fst (update_prices_with_retry cfg (scripts 0) tokens prices s) = False \<and>
         length (attempts (snd (snd (update_prices_with_retry cfg (scripts 0) tokens prices s)))) = 3 \<and>
         failed_attempts (fst (snd (update_prices_with_retry cfg (scripts 0) tokens prices s)))
           = failed_attempts s \<and>
         On_failure \<notin> set (adaptations (snd (snd (update_prices_with_retry cfg (scripts 0) tokens prices s)))) \<and>
         On_success \<notin> set (adaptations (snd (snd (update_prices_with_retry cfg (scripts 0) tokens prices s)))) \<and>
         failed_attempts (fst (update_prices cfg (\<lambda>b. scripts) [tokens] [prices] [updates] s))
           = failed_attempts s + 1 \<and>
         count_list (adaptations (snd (update_prices cfg (\<lambda>b. scripts) [tokens] [prices] [updates] s)))
           On_failure = 1 \<and>
         count_list (adaptations (snd (update_prices cfg (\<lambda>b. scripts) [tokens] [prices] [updates] s)))
           On_success = 0"
proof -
  have zero: "exhausts cfg (scripts 0)" using assms(2) by simp
  from update_prices_with_retry_exhausted [OF zero, of tokens prices s] assms(1)
  have a: "fst (update_prices_with_retry cfg (scripts 0) tokens prices s) = False"
    "length (attempts (snd (snd (update_prices_with_retry cfg (scripts 0) tokens prices s)))) = 3"
    "failed_attempts (fst (snd (update_prices_with_retry cfg (scripts 0) tokens prices s))) = failed_attempts s"
    "set (adaptations (snd (snd (update_prices_with_retry cfg (scripts 0) tokens prices s)))) \<subseteq> {Out_of_gas}"
    by simp_all
  from a(4) have b: "On_failure \<notin> set (adaptations (snd (snd (update_prices_with_retry cfg (scripts 0) tokens prices s))))"
    "On_success \<notin> set (adaptations (snd (snd (update_prices_with_retry cfg (scripts 0) tokens prices s))))"
    by auto
  from update_prices_exhausted [OF assms(2), of tokens prices updates s] a b show ?thesis
    by simp
qed

theorem exhausted_action_counts_one_failure_witness:
  "retry_attempts three_attempts_config = 3 \<and>
   exhausts three_attempts_config failing_script \<and>
   fst (update_prices_with_retry three_attempts_config failing_script [''0xA''] [1] initial_state) = False \<and>
   failed_attempts (fst (update_prices three_attempts_config (\<lambda>b i. failing_script)
       [[''0xA'']] [[1]] [[(''A'', 1)]] initial_state)) = 1 \<and>
   count_list (adaptations (snd (update_prices three_attempts_config (\<lambda>b i. failing_script)
       [[''0xA'']] [[1]] [[(''A'', 1)]] initial_state))) On_failure = 1 \<and>
   count_list (adaptations (snd (update_prices three_attempts_config (\<lambda>b i. failing_script)
       [[''0xA'']] [[1]] [[(''A'', 1)]] initial_state))) On_success = 0"
proof -
  have h1: "retry_attempts three_attempts_config = 3"
    by (simp add: three_attempts_config_def)
  have h2: "\<forall>i::nat. exhausts three_attempts_config ((\<lambda>i. failing_script) i)"
    by (simp add: failing_script_exhausts)
  from exhausted_action_counts_one_failure [OF h1 h2, of "[''0xA'']" "[1]" initial_state "[(''A'', 1)]"]
    h1 failing_script_exhausts
  show ?thesis by (simp add: initial_state_def)
qed

text \<open>
  Claim C3, as stated, counts one failure transition per failed attempt. On a chain where
  every attempt times out, three attempts are made and the retry function leaves the
  failure counter as it was; after \<^verbatim>\<open>update_prices\<close> the counter has grown by 1, not
  by 3, and the failure transition was made once, not three times.
\<close>

theorem failure_counted_once_not_per_attempt:
  "retry_attempts three_attempts_config = 3 \<and>
   fst (update_prices_with_retry three_attempts_config failing_script [''0xA''] [1] initial_state) = False \<and>
   length (attempts (snd (snd (update_prices_with_retry three_attempts_config failing_script
       [''0xA''] [1] initial_state)))) = 3 \<and>
   failed_attempts (fst (snd (update_prices_with_retry three_attempts_config failing_script
       [''0xA''] [1] initial_state))) = failed_attempts initial_state \<and>
   failed_attempts (fst (update_prices three_attempts_config (\<lambda>b i. failing_script)
       [[''0xA'']] [[1]] [[(''A'', 1)]] initial_state)) \<noteq> failed_attempts initial_state + 3 \<and>
   count_list (adaptations (snd (update_prices three_attempts_config (\<lambda>b i. failing_script)
       [[''0xA'']] [[1]] [[(''A'', 1)]] initial_state))) On_failure \<noteq> 3"
proof -
  have all: "\<forall>i::nat. exhausts three_attempts_config ((\<lambda>i. failing_script) i)"
    by (simp add: failing_script_exhausts)
  have r: "retry_attempts three_attempts_config = 3"
    by (simp add: three_attempts_config_def)
  from update_prices_with_retry_exhausted
         [OF failing_script_exhausts, of "[''0xA'']" "[1]" initial_state]
       update_prices_exhausted [OF all, of "[''0xA'']" "[1]" "[(''A'', 1)]" initial_state]
  show ?thesis by (simp add: r)
qed

text \<open>
  The attempts of an invocation do not depend on the adaptive state it starts from, are
  numbered from 0 without gaps, and are at most the configured number.
\<close>

lemma retry_loop_attempts_any_state:
  "map snd (attempts (snd (snd (retry_loop cfg sc tokens prices k a s))))
     = map snd (attempts (snd (snd (retry_loop cfg sc tokens prices k a s'))))"
proof (induction k arbitrary: a s s')
  case 0
  show ?case by simp
next
  case (Suc k)
  note ih = Suc.IH
  show ?case
  proof (cases "attempt_outcome tokens prices (outcomes sc a)")
    case Sim_failed
    then show ?thesis by (simp add: Let_def)
  next
    case (Receipt status)
    with ih [of "Suc a" s s'] show ?thesis
      by (simp add: Let_def add_events_simps)
  next
    case (Error msg)
    with ih [of "Suc a" s s'] ih [of "Suc a" "out_of_gas_adjust s" "out_of_gas_adjust s'"]
    show ?thesis
      by (simp add: Let_def add_events_simps attempts_append backoff_projections)
  qed
qed

lemma retry_loop_attempts_consecutive:
  "\<exists>n\<le>k. map snd (attempts (snd (snd (retry_loop cfg sc tokens prices k a s)))) = [a..<a + n]"
proof (induction k arbitrary: a s)
  case 0
  show ?case by simp
next
  case (Suc k)
  have stop: "\<exists>n\<le>Suc k. [a] = [a..<a + n]"
    by (rule exI [of _ 1]) simp
  have go: "\<exists>n\<le>Suc k. a # map snd (attempts (snd (snd (retry_loop cfg sc tokens prices k (Suc a) t))))
               = [a..<a + n]" for t
  proof -
    from Suc.IH [of "Suc a" t] obtain n where n: "n \<le> k"
      "map snd (attempts (snd (snd (retry_loop cfg sc tokens prices k (Suc a) t)))) = [Suc a..<Suc a + n]"
      by blast
    have "a # [Suc a..<Suc a + n] = [a..<a + Suc n]" by (simp add: upt_conv_Cons)
    with n show ?thesis by (intro exI [of _ "Suc n"]) simp
  qed
  show ?case
  proof (cases "attempt_outcome tokens prices (outcomes sc a)")
    case Sim_failed
    with stop show ?thesis by (simp add: Let_def)
  next
    case (Receipt status)
    with stop go [of s] show ?thesis
      by (simp add: Let_def add_events_simps)
  next
    case (Error msg)
    with stop go [of s] go [of "out_of_gas_adjust s"] show ?thesis
      by (simp add: Let_def add_events_simps attempts_append backoff_projections)
  qed
qed

lemma attempts_of_invocation:
  "map snd (attempts (snd (snd (update_prices_with_retry cfg sc tokens prices s))))
     = solo_attempts cfg sc tokens prices"
  using retry_loop_attempts_any_state [of cfg sc tokens prices "nat (retry_attempts cfg)" 0 s initial_state]
  by (simp add: solo_attempts_def update_prices_with_retry_def add_events_simps)

lemma solo_attempts_consecutive:
  "\<exists>n\<le>nat (retry_attempts cfg). solo_attempts cfg sc tokens prices = [0..<n]"
proof (cases "preflight_ok sc")
  case False
  then have "solo_attempts cfg sc tokens prices = [0..<0]"
    by (simp add: solo_attempts_def update_prices_with_retry_def)
  then show ?thesis by blast
next
  case True
  with retry_loop_attempts_consecutive [of "nat (retry_attempts cfg)" cfg sc tokens prices 0 initial_state]
  show ?thesis
    by (simp add: solo_attempts_def update_prices_with_retry_def add_events_simps)
qed

lemma solo_attempts_exhausted:
  assumes "exhausts cfg sc"
  shows "solo_attempts cfg sc tokens prices = [0..<nat (retry_attempts cfg)]"
proof -
  have "map snd (map (Pair tokens) [0..<nat (retry_attempts cfg)]) = [0..<nat (retry_attempts cfg)]"
    by (simp add: comp_def)
  with update_prices_with_retry_exhausted [OF assms, of tokens prices initial_state]
  show ?thesis by (simp add: solo_attempts_def)
qed

lemma invocation_events_shape:
  "\<exists>es'. snd (snd (update_prices_with_retry cfg sc tokens prices s)) = Invoked tokens prices # es' \<and>
         invocations es' = []"
  by (simp add: update_prices_with_retry_def add_events_simps retry_loop_invocations)

lemma collect_without_invocation:
  "invocations es1 = [] \<Longrightarrow>
     collect (es1 @ es2) = (map snd (attempts es1) @ fst (collect es2), snd (collect es2))"
  by (induction es1 rule: collect.induct) (simp_all split: prod.splits)

lemma collect_invocation:
  "collect (snd (snd (update_prices_with_retry cfg sc tokens prices s)) @ rest)
     = ([], ((tokens, prices), solo_attempts cfg sc tokens prices @ fst (collect rest))
            # snd (collect rest))"
proof -
  from invocation_events_shape [of cfg sc tokens prices s] obtain es' where
    es': "snd (snd (update_prices_with_retry cfg sc tokens prices s)) = Invoked tokens prices # es'"
      "invocations es' = []"
    by blast
  have "map snd (attempts es') = solo_attempts cfg sc tokens prices"
    using attempts_of_invocation [of cfg sc tokens prices s] es'(1) by simp
  with es' collect_without_invocation [OF es'(2), of rest] show ?thesis by simp
qed

lemma submit_individually_collect:
  "collect (snd (submit_individually cfg scripts i items s))
     = ([], map (\<lambda>(j, item). (([fst item], [fst (snd item)]),
                              solo_attempts cfg (scripts j) [fst item] [fst (snd item)]))
              (enumerate i items))"
proof (induction items arbitrary: i s)
  case Nil
  show ?case by simp
next
  case (Cons item items)
  obtain t p u where item: "item = (t, p, u)" by (cases item) auto
  obtain ok s1 es where r: "update_prices_with_retry cfg (scripts i) [t] [p] s = (ok, s1, es)"
    by (cases "update_prices_with_retry cfg (scripts i) [t] [p] s") auto
  obtain s2 es' where r': "submit_individually cfg scripts (Suc i) items s1 = (s2, es')"
    by (cases "submit_individually cfg scripts (Suc i) items s1") auto
  have rest: "collect es' = ([], map (\<lambda>(j, item). (([fst item], [fst (snd item)]),
                              solo_attempts cfg (scripts j) [fst item] [fst (snd item)]))
              (enumerate (Suc i) items))"
    using Cons.IH [of "Suc i" s1] r' by simp
  have "collect (es @ es') = ([], (([t], [p]), solo_attempts cfg (scripts i) [t] [p] @ fst (collect es'))
            # snd (collect es'))"
    using collect_invocation [of cfg "scripts i" "[t]" "[p]" s es'] r by simp
  with item r r' rest show ?case by simp
qed

lemma zip3_enumerate:
  assumes "length ps = length ts" and "length us = length ts"
  shows "map (\<lambda>(j, item). f j (fst item) (fst (snd item))) (enumerate n (zip ts (zip ps us)))
       = map (\<lambda>(j, t, p). f j t p) (enumerate n (zip ts ps))"
proof -
  have "length ts = length ps" "length ps = length us" using assms by simp_all
  then show ?thesis by (induction ts ps us arbitrary: n rule: list_induct3) simp_all
qed

lemma submit_batch_collect:
  assumes "\<not> fst (update_prices_with_retry cfg (scripts 0) token_batch price_batch s)"
      and "1 < length token_batch"
      and "length price_batch = length token_batch"
      and "length update_batch = length token_batch"
  shows "attempts_by_invocation
           (snd (snd (submit_batch cfg scripts token_batch price_batch update_batch s)))
         = ((token_batch, price_batch), solo_attempts cfg (scripts 0) token_batch price_batch)
           # map (\<lambda>(i, t, p). (([t], [p]), solo_attempts cfg (scripts i) [t] [p]))
               (enumerate 1 (zip token_batch price_batch))"
proof -
  obtain ok s1 es where r: "update_prices_with_retry cfg (scripts 0) token_batch price_batch s = (ok, s1, es)"
    by (cases "update_prices_with_retry cfg (scripts 0) token_batch price_batch s") auto
  with assms(1) have ok: "\<not> ok" by simp
  let ?items = "zip token_batch (zip price_batch update_batch)"
  let ?s2 = "adjust_batch_size_on_failure s1"
  obtain s3 es' where r': "submit_individually cfg scripts 1 ?items ?s2 = (s3, es')"
    by (cases "submit_individually cfg scripts 1 ?items ?s2") auto
  have ind: "collect es' = ([], map (\<lambda>(i, t, p). (([t], [p]), solo_attempts cfg (scripts i) [t] [p]))
               (enumerate 1 (zip token_batch price_batch)))"
    using submit_individually_collect [of cfg scripts 1 ?items ?s2] r'
      zip3_enumerate [OF assms(3) assms(4),
        of "\<lambda>j t p. (([t], [p]), solo_attempts cfg (scripts j) [t] [p])" 1]
    by simp
  have "collect (es @ Adapt On_failure # es')
      = ([], ((token_batch, price_batch),
              solo_attempts cfg (scripts 0) token_batch price_batch
                @ fst (collect (Adapt On_failure # es')))
            # snd (collect (Adapt On_failure # es')))"
    using collect_invocation [of cfg "scripts 0" token_batch price_batch s "Adapt On_failure # es'"] r
    by simp
  with r r' ok assms(2) ind show ?thesis
    by (simp add: submit_batch_def Let_def attempts_by_invocation_def)
qed

text \<open>
  Claim C8. When the batched submission of more than one price update fails after using
  up its attempts, the retry function is then invoked once per item of the batch, in
  order, each time with that single token and price: one batch invocation followed by
  exactly N single-item ones. Each single-item invocation has its own full budget: it
  makes exactly the attempts it would make if it were submitted alone, whatever happened
  to the batch and to the other items; these are numbered from 0, at most the configured
  number, and all of them when every one of its attempts fails in a retryable way.
\<close>

theorem failed_batch_resubmitted_singly:
  assumes "exhausts cfg (scripts 0)"
      and "1 < length token_batch"
      and "length price_batch = length token_batch"
      and "length update_batch = length token_batch"
  shows "fst (update_prices_with_retry cfg (scripts 0) token_batch price_batch s) = False \<and>
         invocations (snd (snd (submit_batch cfg scripts token_batch price_batch update_batch s)))
           = (token_batch, price_batch) # map (\<lambda>(t, p). ([t], [p])) (zip token_batch price_batch) \<and>
         length (invocations (snd (snd (submit_batch cfg scripts token_batch price_batch update_batch s))))
           = 1 + length token_batch \<and>
         attempts_by_invocation
             (snd (snd (submit_batch cfg scripts token_batch price_batch update_batch s)))
           = ((token_batch, price_batch), [0..<nat (retry_attempts cfg)])
             # map (\<lambda>(i, t, p). (([t], [p]), solo_attempts cfg (scripts i) [t] [p]))
                 (enumerate 1 (zip token_batch price_batch)) \<and>
         (\<forall>i t p. \<exists>n\<le>nat (retry_attempts cfg). solo_attempts cfg (scripts i) [t] [p] = [0..<n]) \<and>
         (\<forall>i t p. exhausts cfg (scripts i) \<longrightarrow>
            solo_attempts cfg (scripts i) [t] [p] = [0..<nat (retry_attempts cfg)]) \<and>
         ((\<forall>i. exhausts cfg (scripts i)) \<longrightarrow>
            attempts (snd (snd (submit_batch cfg scripts token_batch price_batch update_batch s)))
              = map (Pair token_batch) [0..<nat (retry_attempts cfg)] @
                concat (map (\<lambda>t. map (Pair [t]) [0..<nat (retry_attempts cfg)]) token_batch))"
proof -
  have failed: "fst (update_prices_with_retry cfg (scripts 0) token_batch price_batch s) = False"
    using update_prices_with_retry_exhausted [OF assms(1), of token_batch price_batch s] by simp
  then have nf: "\<not> fst (update_prices_with_retry cfg (scripts 0) token_batch price_batch s)" by simp
  have inv: "invocations (snd (snd (submit_batch cfg scripts token_batch price_batch update_batch s)))
           = (token_batch, price_batch) # map (\<lambda>(t, p). ([t], [p])) (zip token_batch price_batch)"
    using nf assms(2) assms(3) assms(4) by (rule submit_batch_split)
  have len: "length (invocations (snd (snd (submit_batch cfg scripts token_batch price_batch update_batch s))))
           = 1 + length token_batch"
    using inv assms(3) by simp
  have per: "attempts_by_invocation
             (snd (snd (submit_batch cfg scripts token_batch price_batch update_batch s)))
           = ((token_batch, price_batch), [0..<nat (retry_attempts cfg)])
             # map (\<lambda>(i, t, p). (([t], [p]), solo_attempts cfg (scripts i) [t] [p]))
                 (enumerate 1 (zip token_batch price_batch))"
    using submit_batch_collect [where cfg = cfg and scripts = scripts and s = s, OF nf assms(2) assms(3) assms(4)]
      solo_attempts_exhausted [OF assms(1), of token_batch price_batch]
    by simp
  have cons: "\<forall>i t p. \<exists>n\<le>nat (retry_attempts cfg). solo_attempts cfg (scripts i) [t] [p] = [0..<n]"
    by (simp add: solo_attempts_consecutive)
  have full: "\<forall>i t p. exhausts cfg (scripts i) \<longrightarrow>
            solo_attempts cfg (scripts i) [t] [p] = [0..<nat (retry_attempts cfg)]"
    by (simp add: solo_attempts_exhausted)
  have budget: "attempts (snd (snd (submit_batch cfg scripts token_batch price_batch update_batch s)))
              = map (Pair token_batch) [0..<nat (retry_attempts cfg)] @
                concat (map (\<lambda>t. map (Pair [t]) [0..<nat (retry_attempts cfg)]) token_batch)"
    if all: "\<forall>i. exhausts cfg (scripts i)"
  proof -
    have "map (\<lambda>item. map (Pair [fst item]) [0..<nat (retry_attempts cfg)])
            (zip token_batch (zip price_batch update_batch))
          = map (\<lambda>t. map (Pair [t]) [0..<nat (retry_attempts cfg)]) token_batch"
      using zip3_firsts [OF assms(3) assms(4), of "\<lambda>t. map (Pair [t]) [0..<nat (retry_attempts cfg)]"]
      by simp
    with submit_batch_exhausted [OF all, of token_batch price_batch update_batch s] assms(2)
    show ?thesis by simp
  qed
  from failed inv len per cons full budget show ?thesis by blast
qed

lemma confirming_script_solo:
  "solo_attempts three_attempts_config confirming_script [t] [p] = [0]"
  by (simp add: solo_attempts_def update_prices_with_retry_def confirming_script_def
      three_attempts_config_def numeral_3_eq_3 attempt_outcome_def Let_def add_events_def)

theorem failed_batch_resubmitted_singly_witness:
  "exhausts three_attempts_config (mixed_scripts 0) \<and>
   1 < length [''0xA'', ''0xB''] \<and>
   invocations (snd (snd (submit_batch three_attempts_config mixed_scripts
       [''0xA'', ''0xB''] [1, 2] [(''A'', 1), (''B'', 2)] initial_state)))
     = [([''0xA'', ''0xB''], [1, 2]), ([''0xA''], [1]), ([''0xB''], [2])] \<and>
   attempts_by_invocation (snd (snd (submit_batch three_attempts_config mixed_scripts
       [''0xA'', ''0xB''] [1, 2] [(''A'', 1), (''B'', 2)] initial_state)))
     = [(([''0xA'', ''0xB''], [1, 2]), [0, 1, 2]),
        (([''0xA''], [1]), [0]),
        (([''0xB''], [2]), [0, 1, 2])] \<and>
   attempts (snd (snd (submit_batch three_attempts_config (\<lambda>i. failing_script)
       [''0xA'', ''0xB''] [1, 2] [(''A'', 1), (''B'', 2)] initial_state)))
     = [([''0xA'', ''0xB''], 0), ([''0xA'', ''0xB''], 1), ([''0xA'', ''0xB''], 2),
        ([''0xA''], 0), ([''0xA''], 1), ([''0xA''], 2),
        ([''0xB''], 0), ([''0xB''], 1), ([''0xB''], 2)]"
proof -
  have m0: "exhausts three_attempts_config (mixed_scripts 0)"
    and m2: "exhausts three_attempts_config (mixed_scripts (Suc (Suc 0)))"
    by (simp_all add: mixed_scripts_def failing_script_exhausts)
  have h0: "exhausts three_attempts_config ((\<lambda>i::nat. failing_script) 0)"
    by (simp add: failing_script_exhausts)
  have hall: "\<forall>i::nat. exhausts three_attempts_config ((\<lambda>i. failing_script) i)"
    by (simp add: failing_script_exhausts)
  have h1: "1 < length [''0xA'', ''0xB'']" by simp
  have h2: "length [1, 2 :: int] = length [''0xA'', ''0xB'']" by simp
  have h3: "length [(''A'', 1 :: rat), (''B'', 2)] = length [''0xA'', ''0xB'']" by simp
  have r: "nat (retry_attempts three_attempts_config) = 3"
    by (simp add: three_attempts_config_def)
  have u: "[0..<3] = [0, 1, 2 :: nat]" by (simp add: upt_rec)
  have one: "solo_attempts three_attempts_config (mixed_scripts 1) [''0xA''] [1] = [0]"
    by (simp add: mixed_scripts_def confirming_script_solo)
  have two: "solo_attempts three_attempts_config (mixed_scripts (Suc (Suc 0))) [''0xB''] [2]
      = [0, 1, 2]"
    using solo_attempts_exhausted [OF m2, of "[''0xB'']" "[2]"] r u by simp
  have en: "enumerate 1 (zip [''0xA'', ''0xB''] [1, 2 :: int]) = [(1, ''0xA'', 1), (2, ''0xB'', 2)]"
    by (simp add: enumerate_eq_zip upt_rec)
  from failed_batch_resubmitted_singly
         [where cfg = three_attempts_config and scripts = mixed_scripts and s = initial_state,
          OF m0 h1 h2 h3]
       failed_batch_resubmitted_singly
         [where cfg = three_attempts_config and scripts = "\<lambda>i. failing_script"
            and s = initial_state, OF h0 h1 h2 h3]
       hall m0 r u one two en
  show ?thesis by simp
qed

end
